theory Spec2Isabelle
  imports Complex_Main "HOL-Library.Word" "HOL-Library.AList"
begin

section \<open>The binary writer (psk/exporter.py)\<close>

text \<open>
  The element records of a PSK file are ctypes structures. A ctypes structure type has a
  size (\<open>sizeof\<close>) and every instance is a buffer of exactly that many bytes, which is
  what \<open>fp.write(datum)\<close> appends to the file. The structure declarations live in
  \<open>psk/data.py\<close>; the writer only uses \<open>sizeof\<close> and the buffer, so a structure
  type is described by these two.
\<close>

type_synonym byte = "8 word"

record 'a ctype =
  sizeof :: nat
  buffer :: "'a \<Rightarrow> byte list"

definition wf_ctype :: "'a ctype \<Rightarrow> bool" where
  "wf_ctype T \<longleftrightarrow> (\<forall>x. length (buffer T x) = sizeof T)"

text \<open>
  Modelled from the spec: the wedge records of \<open>psk/data.py\<close>, which is not among
  the sources. \<open>Psk.Wedge\<close> is the wedge as the builder produces it, with a point
  index wider than 16 bits (a Python integer); \<open>Psk.Wedge16\<close> is the record written
  to the file, with the fields the spec lists: \<open>point_index:uint16\<close>, \<open>u:float32\<close>,
  \<open>v:float32\<close>, \<open>material_index:uint8\<close>. Assigning a Python integer to an integer
  field of a ctypes structure keeps its low bits. The texture coordinates are
  floating-point numbers, modelled as reals (fields \<open>u\<close> and \<open>v\<close> of the source).
\<close>

record Wedge =
  point_index :: int
  wedge_u :: real
  wedge_v :: real
  material_index :: int

record Wedge16 =
  point_index16 :: "16 word"
  u16 :: real
  v16 :: real
  material_index16 :: "8 word"

record ('p, 'f, 'm, 'b, 'w) Psk =
  points :: "'p list"
  wedges :: "Wedge list"
  faces :: "'f list"
  materials :: "'m list"
  bones :: "'b list"
  weights :: "'w list"

record ('p, 'f, 'm, 'b, 'w) psk_types =
  Vector3_t :: "'p ctype"
  Wedge16_t :: "Wedge16 ctype"
  Face_t :: "'f ctype"
  Material_t :: "'m ctype"
  Bone_t :: "'b ctype"
  Weight_t :: "'w ctype"

definition wf_psk_types :: "('p, 'f, 'm, 'b, 'w) psk_types \<Rightarrow> bool" where
  "wf_psk_types T \<longleftrightarrow>
     wf_ctype (Vector3_t T) \<and> wf_ctype (Wedge16_t T) \<and> wf_ctype (Face_t T) \<and>
     wf_ctype (Material_t T) \<and> wf_ctype (Bone_t T) \<and> wf_ctype (Weight_t T)"

definition MAX_WEDGE_COUNT :: nat where "MAX_WEDGE_COUNT = 65536"
definition MAX_POINT_COUNT :: nat where "MAX_POINT_COUNT = 4294967296"
definition MAX_BONE_COUNT :: nat where "MAX_BONE_COUNT = 256"
definition MAX_MATERIAL_COUNT :: nat where "MAX_MATERIAL_COUNT = 256"

text \<open>The \<open>RuntimeError\<close>s of \<open>export_psk\<close>, one constructor per message.\<close>

datatype export_error =
    WedgeCountExceeded nat
  | PointCountExceeded nat
  | MaterialCountExceeded nat
  | BoneCountExceeded nat
  | NoBones

definition le32 :: "32 word \<Rightarrow> byte list" where
  "le32 w = [ucast w, ucast (drop_bit 8 w), ucast (drop_bit 16 w), ucast (drop_bit 24 w)]"

definition bytes_of :: "string \<Rightarrow> byte list" where
  "bytes_of s = map (\<lambda>c. word_of_nat (of_char c)) s"

text \<open>
  Modelled from the spec: the \<open>Section\<close> structure of \<open>psk/data.py\<close>, which is not
  among the sources. The spec gives its layout as
  \<open>name[20 bytes, ASCII, NUL-padded] data_size:int32 data_count:int32\<close>, little-endian.
  A 32-bit field keeps the low 32 bits of the Python integer assigned to it.
\<close>

record Section =
  name :: string
  data_size :: nat
  data_count :: nat

definition Section_init :: Section where
  "Section_init = \<lparr>name = [], data_size = 0, data_count = 0\<rparr>"

definition Section_buffer :: "Section \<Rightarrow> byte list" where
  "Section_buffer s =
     take 20 (bytes_of (name s) @ replicate 20 0)
     @ le32 (word_of_nat (data_size s)) @ le32 (word_of_nat (data_count s))"

text \<open>
  \<open>_write_section(fp, name, data_type, data)\<close>. The file object is the list of bytes
  written so far. \<open>data_type\<close> and \<open>data\<close> are passed together or not at all by
  every caller, so the two optional arguments are one optional pair.
\<close>

definition write_section :: "byte list \<Rightarrow> string \<Rightarrow> ('a ctype \<times> 'a list) option \<Rightarrow> byte list" where
  "write_section fp nm arg =
     (case arg of
        None \<Rightarrow> fp @ Section_buffer (Section_init\<lparr>name := nm\<rparr>)
      | Some (data_type, data) \<Rightarrow>
          fp @ Section_buffer (Section_init\<lparr>name := nm, data_size := sizeof data_type,
                                            data_count := length data\<rparr>)
             @ concat (map (buffer data_type) data))"

text \<open>The loop of \<open>export_psk\<close> that re-encodes each wedge as a \<open>Wedge16\<close>.\<close>

definition to_Wedge16 :: "Wedge \<Rightarrow> Wedge16" where
  "to_Wedge16 w =
     \<lparr>point_index16 = word_of_int (point_index w), u16 = wedge_u w, v16 = wedge_v w,
      material_index16 = word_of_int (material_index w)\<rparr>"

definition encode_wedges :: "Wedge list \<Rightarrow> Wedge16 list" where
  "encode_wedges ws = map to_Wedge16 ws"

text \<open>
  The file system is a map from paths to contents. \<open>open(path, 'wb')\<close> creates or
  truncates the file; the \<open>with\<close> block leaves the written bytes at the path.
\<close>

type_synonym files = "string \<rightharpoonup> byte list"

definition psk_file :: "('p, 'f, 'm, 'b, 'w) psk_types \<Rightarrow> ('p, 'f, 'm, 'b, 'w) Psk \<Rightarrow> byte list" where
  "psk_file T psk =
     (let fp = [];
          fp = write_section fp ''ACTRHEAD'' (None :: (unit ctype \<times> unit list) option);
          fp = write_section fp ''PNTS0000'' (Some (Vector3_t T, points psk));
          wedges16 = encode_wedges (wedges psk);
          fp = write_section fp ''VTXW0000'' (Some (Wedge16_t T, wedges16));
          fp = write_section fp ''FACE0000'' (Some (Face_t T, faces psk));
          fp = write_section fp ''MATT0000'' (Some (Material_t T, materials psk));
          fp = write_section fp ''REFSKELT'' (Some (Bone_t T, bones psk));
          fp = write_section fp ''RAWWEIGHTS'' (Some (Weight_t T, weights psk))
      in fp)"

definition export_psk ::
  "('p, 'f, 'm, 'b, 'w) psk_types \<Rightarrow> ('p, 'f, 'm, 'b, 'w) Psk \<Rightarrow> string \<Rightarrow> files
     \<Rightarrow> (export_error + unit) \<times> files" where
  "export_psk T psk path fs =
     (if length (wedges psk) > MAX_WEDGE_COUNT then
        (Inl (WedgeCountExceeded (length (wedges psk))), fs)
      else if length (points psk) > MAX_POINT_COUNT then
        (Inl (PointCountExceeded (length (points psk))), fs)
      else if length (materials psk) > MAX_MATERIAL_COUNT then
        (Inl (MaterialCountExceeded (length (materials psk))), fs)
      else if length (bones psk) > MAX_BONE_COUNT then
        (Inl (BoneCountExceeded (length (bones psk))), fs)
      else if length (bones psk) = 0 then
        (Inl NoBones, fs)
      else (Inr (), fs(path \<mapsto> psk_file T psk)))"


text \<open>
  The seven sections the spec lists for a file, each as its header record and its
  payload: the statement the writer is compared with.
\<close>

definition spec_sections ::
  "('p, 'f, 'm, 'b, 'w) psk_types \<Rightarrow> ('p, 'f, 'm, 'b, 'w) Psk \<Rightarrow> (Section \<times> byte list) list" where
  "spec_sections T psk =
     [(\<lparr>name = ''ACTRHEAD'', data_size = 0, data_count = 0\<rparr>, []),
      (\<lparr>name = ''PNTS0000'', data_size = sizeof (Vector3_t T), data_count = length (points psk)\<rparr>,
         concat (map (buffer (Vector3_t T)) (points psk))),
      (\<lparr>name = ''VTXW0000'', data_size = sizeof (Wedge16_t T), data_count = length (wedges psk)\<rparr>,
         concat (map (buffer (Wedge16_t T)) (map to_Wedge16 (wedges psk)))),
      (\<lparr>name = ''FACE0000'', data_size = sizeof (Face_t T), data_count = length (faces psk)\<rparr>,
         concat (map (buffer (Face_t T)) (faces psk))),
      (\<lparr>name = ''MATT0000'', data_size = sizeof (Material_t T), data_count = length (materials psk)\<rparr>,
         concat (map (buffer (Material_t T)) (materials psk))),
      (\<lparr>name = ''REFSKELT'', data_size = sizeof (Bone_t T), data_count = length (bones psk)\<rparr>,
         concat (map (buffer (Bone_t T)) (bones psk))),
      (\<lparr>name = ''RAWWEIGHTS'', data_size = sizeof (Weight_t T), data_count = length (weights psk)\<rparr>,
         concat (map (buffer (Weight_t T)) (weights psk)))]"

definition section_image :: "Section \<times> byte list \<Rightarrow> byte list" where
  "section_image sp = Section_buffer (fst sp) @ snd sp"

text \<open>
  A set of structure types for running the writer on concrete containers: the elements
  carry no data (\<open>unit\<close>) and every buffer is zero-filled.
\<close>

definition zero_ctype :: "nat \<Rightarrow> 'a ctype" where
  "zero_ctype n = \<lparr>sizeof = n, buffer = (\<lambda>_. replicate n 0)\<rparr>"

definition zero_types :: "(unit, unit, unit, unit, unit) psk_types" where
  "zero_types =
     \<lparr>Vector3_t = zero_ctype 12, Wedge16_t = zero_ctype 16, Face_t = zero_ctype 12,
      Material_t = zero_ctype 88, Bone_t = zero_ctype 120, Weight_t = zero_ctype 12\<rparr>"

definition overflow_psk :: "(unit, unit, unit, unit, unit) Psk" where
  "overflow_psk =
     \<lparr>points = replicate 65537 (),
      wedges = [\<lparr>point_index = 65536, wedge_u = 0, wedge_v = 0, material_index = 0\<rparr>],
      faces = [], materials = [()], bones = [()], weights = []\<rparr>"

definition minimal_psk :: "(unit, unit, unit, unit, unit) Psk" where
  "minimal_psk =
     \<lparr>points = [()],
      wedges = [\<lparr>point_index = 0, wedge_u = 0, wedge_v = 0, material_index = 0\<rparr>],
      faces = [()], materials = [()], bones = [()], weights = [()]\<rparr>"

definition no_bones_psk :: "(unit, unit, unit, unit, unit) Psk" where
  "no_bones_psk = minimal_psk\<lparr>bones := []\<rparr>"


section \<open>Scene data and mathutils (what shared/helpers.py reads and calls)\<close>

text \<open>
  Blender's vectors, quaternions and matrices hold floating-point numbers; they are
  modelled over the reals, so rounding, overflow and NaN are outside the model.
  A matrix is given by its four rows (the 3x3 matrix of a bone is held in the same type,
  and is only passed to \<open>to_quaternion\<close>). The operations below are the ones of
  \<open>mathutils\<close> that the transformer calls: \<open>Matrix.Identity(4)\<close>,
  \<open>Matrix.Scale(s, 4)\<close>, \<open>to_3x3()\<close>, \<open>Matrix @ Vector\<close> (a 3D vector is
  extended with \<open>w = 1\<close>), vector sum and difference, \<open>conjugated()\<close>,
  \<open>inverted()\<close>, \<open>Quaternion @ Quaternion\<close> (Hamilton product) and
  \<open>Quaternion @ Vector\<close> (rotation of the vector).
\<close>

datatype Vector = Vector (vx: real) (vy: real) (vz: real)

datatype Quaternion = Quaternion (qw: real) (qx: real) (qy: real) (qz: real)

type_synonym Row = "real \<times> real \<times> real \<times> real"
type_synonym Matrix = "Row \<times> Row \<times> Row \<times> Row"

definition Matrix_Identity :: Matrix where
  "Matrix_Identity = ((1, 0, 0, 0), (0, 1, 0, 0), (0, 0, 1, 0), (0, 0, 0, 1))"

definition Matrix_Scale :: "real \<Rightarrow> Matrix" where
  "Matrix_Scale s = ((s, 0, 0, 0), (0, s, 0, 0), (0, 0, s, 0), (0, 0, 0, 1))"

fun to_3x3 :: "Matrix \<Rightarrow> Matrix" where
  "to_3x3 ((a0, a1, a2, a3), (b0, b1, b2, b3), (c0, c1, c2, c3), r3) =
     ((a0, a1, a2, 0), (b0, b1, b2, 0), (c0, c1, c2, 0), (0, 0, 0, 1))"

fun mat_vec :: "Matrix \<Rightarrow> Vector \<Rightarrow> Vector" where
  "mat_vec ((a0, a1, a2, a3), (b0, b1, b2, b3), (c0, c1, c2, c3), r3) (Vector px py pz) =
     Vector (a0 * px + a1 * py + a2 * pz + a3 * 1)
            (b0 * px + b1 * py + b2 * pz + b3 * 1)
            (c0 * px + c1 * py + c2 * pz + c3 * 1)"

definition vec_add :: "Vector \<Rightarrow> Vector \<Rightarrow> Vector" where
  "vec_add a b = Vector (vx a + vx b) (vy a + vy b) (vz a + vz b)"

definition vec_sub :: "Vector \<Rightarrow> Vector \<Rightarrow> Vector" where
  "vec_sub a b = Vector (vx a - vx b) (vy a - vy b) (vz a - vz b)"

definition conjugated :: "Quaternion \<Rightarrow> Quaternion" where
  "conjugated q = Quaternion (qw q) (- qx q) (- qy q) (- qz q)"

definition inverted :: "Quaternion \<Rightarrow> Quaternion" where
  "inverted q =
     (let f = qw q * qw q + qx q * qx q + qy q * qy q + qz q * qz q
      in if f = 0 then q
         else Quaternion (qw q / f) (- qx q / f) (- qy q / f) (- qz q / f))"

definition quat_mul :: "Quaternion \<Rightarrow> Quaternion \<Rightarrow> Quaternion" where
  "quat_mul a b =
     Quaternion (qw a * qw b - qx a * qx b - qy a * qy b - qz a * qz b)
                (qw a * qx b + qx a * qw b + qy a * qz b - qz a * qy b)
                (qw a * qy b + qy a * qw b + qz a * qx b - qx a * qz b)
                (qw a * qz b + qz a * qw b + qx a * qy b - qy a * qx b)"

definition quat_rotate :: "Quaternion \<Rightarrow> Vector \<Rightarrow> Vector" where
  "quat_rotate q p =
     (let r = quat_mul (quat_mul q (Quaternion 0 (vx p) (vy p) (vz p))) (conjugated q)
      in Vector (qx r) (qy r) (qz r))"

text \<open>
  Three functions are taken as parameters: \<open>Matrix.to_quaternion()\<close> and the scale
  component of \<open>Matrix.decompose()\<close>, which are mathutils' (they take square roots
  and normalise), and \<open>get_coordinate_system_transform\<close>, which is defined in
  \<open>shared/data.py\<close>, not among the sources.
\<close>

record library =
  to_quaternion :: "Matrix \<Rightarrow> Quaternion"
  decompose_scale :: "Matrix \<Rightarrow> Vector"
  get_coordinate_system_transform :: "string \<Rightarrow> string \<Rightarrow> Matrix"

text \<open>
  An instance of \<open>bone_class\<close>. The class is an argument of the transformer, so its
  integer fields are taken as Python integers.
\<close>

record psx_bone =
  name :: "byte list"
  flags :: int
  children_count :: int
  parent_index :: int
  location :: Vector
  rotation :: Quaternion

definition bone_class :: psx_bone where
  "bone_class =
     \<lparr>name = [], flags = 0, children_count = 0, parent_index = 0,
      location = Vector 0 0 0, rotation = Quaternion 0 0 0 0\<rparr>"

text \<open>
  A Blender bone is read through \<open>name\<close>, \<open>parent\<close> (a bone or \<open>None\<close>),
  \<open>head\<close>, \<open>tail\<close>, \<open>matrix\<close> and \<open>collections\<close>. The parent is part of the bone,
  as the reference is in Blender, so the parent relation has no cycle. A bone collection
  is identified by its name. A name is a string of code points below 256.
\<close>

datatype Bone =
  Bone (name: string) (parent: "Bone option") (head: Vector) (tail: Vector)
       (matrix: Matrix) (collections: "string list")

record Armature =
  bones :: "Bone list"
  collections_all :: "string list"

record Object =
  obj_type :: string
  data :: Armature

text \<open>
  The exceptions of \<open>shared/helpers.py\<close>: the two \<open>ValueError\<close>s raised by the code
  (\<open>ArmatureRequired\<close>, \<open>InvalidExportSpace\<close>), the \<open>ValueError\<close> of
  \<open>list.index\<close> (\<open>NotInList\<close>), the \<open>IndexError\<close> of a list read out of range
  (\<open>IndexOutOfRange\<close>) and the two \<open>RuntimeError\<close>s (\<open>MultipleRoots\<close> with the
  count and the names of the root bones, \<open>NameNotEncodable\<close>).
\<close>

datatype error =
    ArmatureRequired
  | NotInList
  | IndexOutOfRange
  | MultipleRoots nat "string list"
  | InvalidExportSpace string
  | NameNotEncodable string

text \<open>\<open>xs.index(a)\<close>: the first position of \<open>a\<close>, \<open>None\<close> where Python raises.\<close>

fun list_index :: "'a \<Rightarrow> 'a list \<Rightarrow> nat option" where
  "list_index a [] = None"
| "list_index a (b # bs) = (if a = b then Some 0 else map_option Suc (list_index a bs))"

section \<open>The bone selector: \<open>get_export_bone_names\<close>\<close>

text \<open>\<open>set(bone_collections.index(x) for x in bone.collections)\<close>, as a list.\<close>

fun collection_indices :: "string list \<Rightarrow> string list \<Rightarrow> error + nat list" where
  "collection_indices bone_collections [] = Inr []"
| "collection_indices bone_collections (c # cs) =
     (case list_index c bone_collections of
        None \<Rightarrow> Inl NotInList
      | Some i \<Rightarrow>
          (case collection_indices bone_collections cs of
             Inl e \<Rightarrow> Inl e
           | Inr js \<Rightarrow> Inr (i # js)))"

text \<open>
  The first loop: the bones that are explicitly included. The stack is a list whose
  head is the top, so \<open>append\<close> and \<open>pop\<close> work on the head; \<open>i\<close> is the index
  of the next bone.
\<close>

fun explicit_bones ::
  "string list \<Rightarrow> string \<Rightarrow> int list \<Rightarrow> nat \<Rightarrow> Bone list
     \<Rightarrow> (nat \<times> nat option) list \<Rightarrow> error + (nat \<times> nat option) list" where
  "explicit_bones bone_collections bone_filter_mode bone_collection_indices i []
       bone_index_stack = Inr bone_index_stack"
| "explicit_bones bone_collections bone_filter_mode bone_collection_indices i (bone # rest)
       bone_index_stack =
     (case collection_indices bone_collections (collections bone) of
        Inl e \<Rightarrow> Inl e
      | Inr this_bone_collection_indices \<Rightarrow>
          (let is_exporting_unassigned_bone_collections = (- 1) \<in> set bone_collection_indices;
               is_in_exported_bone_collections =
                 (\<exists>j \<in> set this_bone_collection_indices. int j \<in> set bone_collection_indices)
           in if bone_filter_mode = ''ALL''
                 \<or> (length (collections bone) = 0 \<and> is_exporting_unassigned_bone_collections)
                 \<or> is_in_exported_bone_collections
              then explicit_bones bone_collections bone_filter_mode bone_collection_indices
                     (Suc i) rest ((i, None) # bone_index_stack)
              else explicit_bones bone_collections bone_filter_mode bone_collection_indices
                     (Suc i) rest bone_index_stack))"

text \<open>
  The second loop: the walk up the hierarchy. The dictionary \<open>bone_indices\<close> (bone
  index to instigator) is an association list in insertion order.
\<close>

function walk ::
  "Bone list \<Rightarrow> (nat \<times> nat option) list \<Rightarrow> (nat \<times> nat option) list
     \<Rightarrow> error + (nat \<times> nat option) list" where
  "walk bs [] bone_indices = Inr bone_indices"
| "walk bs ((bone_index, instigator_bone_index) # bone_index_stack) bone_indices =
     (if length bs \<le> bone_index then Inl IndexOutOfRange
      else
        (case parent (bs ! bone_index) of
           None \<Rightarrow>
             walk bs bone_index_stack
               (AList.update bone_index instigator_bone_index bone_indices)
         | Some p \<Rightarrow>
             (case list_index (name p) (map name bs) of
                None \<Rightarrow> Inl NotInList
              | Some parent_bone_index \<Rightarrow>
                  if parent_bone_index \<notin> fst ` set bone_indices
                  then walk bs ((parent_bone_index, Some bone_index) # bone_index_stack)
                         (AList.update bone_index instigator_bone_index bone_indices)
                  else walk bs bone_index_stack
                         (AList.update bone_index instigator_bone_index bone_indices))))"
  by pat_completeness auto
termination
proof (relation "measures
    [\<lambda>(bs, st, bi). card ({..<length bs} - fst ` set bi),
     \<lambda>(bs, st, bi). length st,
     \<lambda>(bs, st, bi). (case st of [] \<Rightarrow> 0 | t # _ \<Rightarrow> if fst t \<in> fst ` set bi then 1 else 0)]",
    goal_cases)
  case 1
  show ?case by simp
next
  case (2 bs bone_index inst st bi)
  have "card ({..<length bs} - insert bone_index (fst ` set bi))
      \<le> card ({..<length bs} - fst ` set bi)"
    by (rule card_mono) auto
  then show ?case by (auto simp: dom_update)
next
  case (3 bs bone_index inst st bi p parent_bone_index)
  then have in_range: "bone_index < length bs" by simp
  show ?case
  proof (cases "bone_index \<in> fst ` set bi")
    case True
    then have "insert bone_index (fst ` set bi) = fst ` set bi" by auto
    moreover from True 3 have "parent_bone_index \<noteq> bone_index" by auto
    ultimately show ?thesis using True 3 by (auto simp: dom_update)
  next
    case False
    with in_range have "card ({..<length bs} - insert bone_index (fst ` set bi))
        < card ({..<length bs} - fst ` set bi)"
      by (intro psubset_card_mono) auto
    then show ?thesis by (simp add: dom_update)
  qed
next
  case (4 bs bone_index inst st bi p parent_bone_index)
  have "card ({..<length bs} - insert bone_index (fst ` set bi))
      \<le> card ({..<length bs} - fst ` set bi)"
    by (rule card_mono) auto
  then show ?case by (auto simp: dom_update)
qed

text \<open>
  The diagnostic loop (\<open>while True\<close>) that follows the instigators from a root bone to
  the bone marked for export; the result is the bone name it prints. \<open>None\<close> is a
  loop that does not end.
\<close>

partial_function (option) true_instigator ::
  "string list \<Rightarrow> string option list \<Rightarrow> string \<Rightarrow> (error + string) option" where
  "true_instigator bone_names instigator_bone_names bone_name =
     (case list_index bone_name bone_names of
        None \<Rightarrow> Some (Inl NotInList)
      | Some i \<Rightarrow>
          if length instigator_bone_names \<le> i then Some (Inl IndexOutOfRange)
          else
            (case instigator_bone_names ! i of
               None \<Rightarrow> Some (Inr bone_name)
             | Some instigator_bone_name \<Rightarrow>
                 true_instigator bone_names instigator_bone_names instigator_bone_name))"

text \<open>The \<open>for\<close> loop over the root bone names; the result is the lines printed.\<close>

fun print_instigators ::
  "string list \<Rightarrow> string option list \<Rightarrow> string list \<Rightarrow> (error + (string \<times> string) list) option" where
  "print_instigators bone_names instigator_bone_names [] = Some (Inr [])"
| "print_instigators bone_names instigator_bone_names (root_bone_name # rest) =
     (case true_instigator bone_names instigator_bone_names root_bone_name of
        None \<Rightarrow> None
      | Some (Inl e) \<Rightarrow> Some (Inl e)
      | Some (Inr bone_name) \<Rightarrow>
          (case print_instigators bone_names instigator_bone_names rest of
             None \<Rightarrow> None
           | Some (Inl e) \<Rightarrow> Some (Inl e)
           | Some (Inr printed) \<Rightarrow> Some (Inr ((root_bone_name, bone_name) # printed))))"

text \<open>
  The part of \<open>get_export_bone_names\<close> after the walk. Every index in the dictionary
  was read from \<open>bones\<close> by the walk, which fails on an index out of range (lemma
  \<open>walk_in_range\<close>), so the reads \<open>bones[x[0]]\<close> and \<open>bones[x[1]]\<close> are in range.
\<close>

definition finish ::
  "Bone list \<Rightarrow> (nat \<times> nat option) list \<Rightarrow> (error + string list) option" where
  "finish bs bone_indices_dict =
     (let bone_indices = sort_key fst bone_indices_dict;
          instigator_bone_names =
            map (\<lambda>e. case snd e of None \<Rightarrow> None | Some j \<Rightarrow> Some (name (bs ! j))) bone_indices;
          bone_names = map (\<lambda>e. name (bs ! fst e)) bone_indices;
          bone_indices = map fst bone_indices;
          root_bones = map (\<lambda>i. bs ! i) (filter (\<lambda>i. parent (bs ! i) = None) bone_indices)
      in if length root_bones > 1 then
           (let root_bone_names = map name root_bones
            in case print_instigators bone_names instigator_bone_names root_bone_names of
                 None \<Rightarrow> None
               | Some (Inl e) \<Rightarrow> Some (Inl e)
               | Some (Inr printed) \<Rightarrow>
                   Some (Inl (MultipleRoots (length root_bones) root_bone_names)))
         else Some (Inr bone_names))"

definition get_export_bone_names ::
  "Object option \<Rightarrow> string \<Rightarrow> int list \<Rightarrow> (error + string list) option" where
  "get_export_bone_names armature_object bone_filter_mode bone_collection_indices =
     (case armature_object of
        None \<Rightarrow> Some (Inl ArmatureRequired)
      | Some ob \<Rightarrow>
          if obj_type ob \<noteq> ''ARMATURE'' then Some (Inl ArmatureRequired)
          else
            (let armature_data = data ob;
                 bone_collections = collections_all armature_data
             in case explicit_bones bone_collections bone_filter_mode bone_collection_indices
                       0 (bones armature_data) [] of
                  Inl e \<Rightarrow> Some (Inl e)
                | Inr bone_index_stack \<Rightarrow>
                    (case walk (bones armature_data) bone_index_stack [] of
                       Inl e \<Rightarrow> Some (Inl e)
                     | Inr bone_indices \<Rightarrow> finish (bones armature_data) bone_indices)))"

section \<open>The bone transformer: \<open>convert_blender_bones_to_psx_bones\<close>\<close>

text \<open>
  \<open>bytes(bone.name, encoding='windows-1252')\<close>, for names over code points below 256:
  the code points from 128 to 159 have no byte in the code page, every other one is
  encoded as the byte of the same value.
\<close>

definition encode_windows_1252 :: "string \<Rightarrow> byte list option" where
  "encode_windows_1252 s =
     (if \<exists>c \<in> set s. 128 \<le> (of_char c :: nat) \<and> (of_char c :: nat) < 160 then None
      else Some (bytes_of s))"

text \<open>The nested function \<open>get_armature_local_matrix\<close>.\<close>

definition get_armature_local_matrix :: "string \<Rightarrow> Matrix \<Rightarrow> error + Matrix" where
  "get_armature_local_matrix export_space armature_object_matrix_world =
     (if export_space = ''WORLD'' then Inr armature_object_matrix_world
      else if export_space = ''ARMATURE'' then Inr Matrix_Identity
      else Inl (InvalidExportSpace export_space))"

text \<open>
  The first \<open>try\<close> block of the loop body: \<open>bones.index(bone.parent)\<close>
  (\<open>index_of_parent\<close>) raises
  \<open>ValueError\<close> when the parent is \<open>None\<close> or is not in the list, and then the parent
  index is 0; \<open>psx_bones[parent_index]\<close> raises \<open>IndexError\<close>, which is not caught,
  when the parent comes later in the list than the bone.
\<close>

definition index_of_parent :: "Bone list \<Rightarrow> Bone \<Rightarrow> nat option" where
  "index_of_parent bs bone = (case parent bone of None \<Rightarrow> None | Some p \<Rightarrow> list_index p bs)"

definition resolve_parent ::
  "Bone list \<Rightarrow> Bone \<Rightarrow> psx_bone \<Rightarrow> psx_bone list \<Rightarrow> error + psx_bone \<times> psx_bone list" where
  "resolve_parent bs bone psx psx_bones =
     (case index_of_parent bs bone of
        Some i \<Rightarrow>
          if length psx_bones \<le> i then Inl IndexOutOfRange
          else Inr (psx\<lparr>parent_index := int i\<rparr>,
                    psx_bones[i := (psx_bones ! i)
                       \<lparr>children_count := children_count (psx_bones ! i) + 1\<rparr>])
      | None \<Rightarrow> Inr (psx\<lparr>parent_index := 0\<rparr>, psx_bones))"

text \<open>The \<open>if bone.parent is not None\<close> statement: the rotation and the location.\<close>

definition bone_transform ::
  "library \<Rightarrow> string \<Rightarrow> Matrix \<Rightarrow> Matrix \<Rightarrow> Quaternion \<Rightarrow> Bone \<Rightarrow> error + Quaternion \<times> Vector" where
  "bone_transform lib export_space armature_object_matrix_world coordinate_system_transform
       coordinate_system_default_rotation bone =
     (case parent bone of
        Some p \<Rightarrow>
          (let rot = conjugated (to_quaternion lib (matrix bone));
               inverse_parent_rotation = inverted (to_quaternion lib (matrix p));
               parent_head = quat_rotate inverse_parent_rotation (head p);
               parent_tail = quat_rotate inverse_parent_rotation (tail p);
               loc = vec_add (vec_sub parent_tail parent_head) (head bone)
           in Inr (rot, loc))
      | None \<Rightarrow>
          (case get_armature_local_matrix export_space armature_object_matrix_world of
             Inl e \<Rightarrow> Inl e
           | Inr armature_local_matrix \<Rightarrow>
               (let loc = mat_vec armature_local_matrix (head bone);
                    loc = mat_vec coordinate_system_transform loc;
                    bone_rotation = conjugated (to_quaternion lib (matrix bone));
                    local_rotation =
                      conjugated (to_quaternion lib (to_3x3 armature_local_matrix));
                    rot = quat_mul bone_rotation local_rotation;
                    rot = conjugated rot;
                    rot = quat_mul coordinate_system_default_rotation rot
                in Inr (rot, loc))))"

text \<open>The statements after it: the uniform scale and the scale of the armature object.\<close>

definition scale_location :: "library \<Rightarrow> Matrix \<Rightarrow> Matrix \<Rightarrow> Vector \<Rightarrow> Vector" where
  "scale_location lib scale_matrix armature_object_matrix_world loc =
     (let loc = mat_vec scale_matrix loc;
          armature_object_scale = decompose_scale lib armature_object_matrix_world
      in Vector (vx loc * vx armature_object_scale)
                (vy loc * vy armature_object_scale)
                (vz loc * vz armature_object_scale))"

text \<open>One iteration of the loop, on the list \<open>psx_bones\<close> built so far.\<close>

definition convert_bone ::
  "library \<Rightarrow> Bone list \<Rightarrow> string \<Rightarrow> Matrix \<Rightarrow> Matrix \<Rightarrow> Matrix \<Rightarrow> Quaternion
     \<Rightarrow> psx_bone list \<Rightarrow> Bone \<Rightarrow> error + psx_bone list" where
  "convert_bone lib bs export_space armature_object_matrix_world scale_matrix
       coordinate_system_transform coordinate_system_default_rotation psx_bones bone =
     (case encode_windows_1252 (name bone) of
        None \<Rightarrow> Inl (NameNotEncodable (name bone))
      | Some encoded \<Rightarrow>
          (case resolve_parent bs bone
                  (bone_class\<lparr>psx_bone.name := encoded, flags := 0, children_count := 0\<rparr>)
                  psx_bones of
             Inl e \<Rightarrow> Inl e
           | Inr (psx, psx_bones) \<Rightarrow>
               (case bone_transform lib export_space armature_object_matrix_world
                       coordinate_system_transform coordinate_system_default_rotation bone of
                  Inl e \<Rightarrow> Inl e
                | Inr (rot, loc) \<Rightarrow>
                    Inr (psx_bones @
                      [psx\<lparr>location :=
                              scale_location lib scale_matrix armature_object_matrix_world loc,
                           rotation := rot\<rparr>]))))"

fun convert_loop ::
  "library \<Rightarrow> Bone list \<Rightarrow> string \<Rightarrow> Matrix \<Rightarrow> Matrix \<Rightarrow> Matrix \<Rightarrow> Quaternion
     \<Rightarrow> Bone list \<Rightarrow> psx_bone list \<Rightarrow> error + psx_bone list" where
  "convert_loop lib bs export_space world scale_matrix cst cdr [] psx_bones = Inr psx_bones"
| "convert_loop lib bs export_space world scale_matrix cst cdr (bone # rest) psx_bones =
     (case convert_bone lib bs export_space world scale_matrix cst cdr psx_bones bone of
        Inl e \<Rightarrow> Inl e
      | Inr psx_bones' \<Rightarrow>
          convert_loop lib bs export_space world scale_matrix cst cdr rest psx_bones')"

definition convert_blender_bones_to_psx_bones ::
  "library \<Rightarrow> Bone list \<Rightarrow> string \<Rightarrow> Matrix \<Rightarrow> real \<Rightarrow> string \<Rightarrow> string
     \<Rightarrow> error + psx_bone list" where
  "convert_blender_bones_to_psx_bones lib bs export_space armature_object_matrix_world scale
       forward_axis up_axis =
     (let scale_matrix = Matrix_Scale scale;
          coordinate_system_transform =
            get_coordinate_system_transform lib forward_axis up_axis;
          coordinate_system_default_rotation = to_quaternion lib coordinate_system_transform
      in convert_loop lib bs export_space armature_object_matrix_world scale_matrix
           coordinate_system_transform coordinate_system_default_rotation bs [])"

section \<open>Notions used in the statements\<close>

text \<open>The exported bone with its location doubled and every other field unchanged.\<close>

definition double_location :: "psx_bone \<Rightarrow> psx_bone" where
  "double_location q =
     q\<lparr>location := Vector (2 * vx (location q)) (2 * vy (location q)) (2 * vz (location q))\<rparr>"

text \<open>
  What the loop body fixes for the exported bone \<open>q\<close> of a bone when it appends it;
  later iterations only change \<open>children_count\<close>.
\<close>

definition converted ::
  "library \<Rightarrow> Bone list \<Rightarrow> string \<Rightarrow> Matrix \<Rightarrow> Matrix \<Rightarrow> Matrix \<Rightarrow> Quaternion
     \<Rightarrow> Bone \<Rightarrow> psx_bone \<Rightarrow> bool" where
  "converted lib bs export_space world scale_matrix cst cdr bone q \<longleftrightarrow>
     (\<exists>loc. bone_transform lib export_space world cst cdr bone = Inr (rotation q, loc)
          \<and> location q = scale_location lib scale_matrix world loc)
     \<and> encode_windows_1252 (name bone) = Some (psx_bone.name q)
     \<and> flags q = 0
     \<and> parent_index q = (case index_of_parent bs bone of Some i \<Rightarrow> int i | None \<Rightarrow> 0)"

text \<open>
  The number of bones of \<open>done\<close> whose parent, looked up in \<open>bs\<close>, has index
  \<open>i\<close>.
\<close>

definition children_of :: "Bone list \<Rightarrow> Bone list \<Rightarrow> nat \<Rightarrow> nat" where
  "children_of bs done i = length (filter (\<lambda>b. index_of_parent bs b = Some i) done)"

text \<open>
  Concrete data for running the functions: a library for armatures whose matrices are
  all the identity (on the identity matrix \<open>to_quaternion\<close> gives the identity
  quaternion and \<open>decompose\<close> the scale \<open>(1, 1, 1)\<close>; the coordinate system
  transform is taken to be the identity), the chain \<open>root -> mid -> tip\<close> and a
  second, unrelated root.
\<close>

definition identity_library :: library where
  "identity_library =
     \<lparr>to_quaternion = (\<lambda>_. Quaternion 1 0 0 0),
      decompose_scale = (\<lambda>_. Vector 1 1 1),
      get_coordinate_system_transform = (\<lambda>_ _. Matrix_Identity)\<rparr>"

definition root_bone :: Bone where
  "root_bone = Bone ''root'' None (Vector 0 0 0) (Vector 0 1 0) Matrix_Identity [''Body'']"

definition mid_bone :: Bone where
  "mid_bone = Bone ''mid'' (Some root_bone) (Vector 0 1 0) (Vector 0 2 0) Matrix_Identity []"

definition tip_bone :: Bone where
  "tip_bone = Bone ''tip'' (Some mid_bone) (Vector 0 1 0) (Vector 0 3 0) Matrix_Identity [''Hand'']"

definition other_bone :: Bone where
  "other_bone = Bone ''other'' None (Vector 1 0 0) (Vector 1 1 0) Matrix_Identity [''Prop'']"

definition chain_object :: Object where
  "chain_object =
     \<lparr>obj_type = ''ARMATURE'',
      data = \<lparr>bones = [root_bone, mid_bone, tip_bone, other_bone],
              collections_all = [''Body'', ''Hand'', ''Prop'']\<rparr>\<rparr>"

definition chain_bones :: "Bone list" where
  "chain_bones = [root_bone, mid_bone, tip_bone]"

text \<open>The exported bones of the chain, in world space with scale 1.\<close>

definition chain_psx_bones :: "psx_bone list" where
  "chain_psx_bones =
     [\<lparr>psx_bone.name = [114, 111, 111, 116], flags = 0, children_count = 1,
        parent_index = 0, location = Vector 0 0 0, rotation = Quaternion 1 0 0 0\<rparr>,
      \<lparr>psx_bone.name = [109, 105, 100], flags = 0, children_count = 1,
        parent_index = 0, location = Vector 0 2 0, rotation = Quaternion 1 0 0 0\<rparr>,
      \<lparr>psx_bone.name = [116, 105, 112], flags = 0, children_count = 0,
        parent_index = 1, location = Vector 0 2 0, rotation = Quaternion 1 0 0 0\<rparr>]"

text \<open>
  The bones above a bone, nearest first, and the top of its chain of parents.
\<close>

fun ancestors :: "Bone \<Rightarrow> Bone list" where
  "ancestors (Bone n po h t m c) = (case po of None \<Rightarrow> [] | Some p \<Rightarrow> p # ancestors p)"

fun root_of :: "Bone \<Rightarrow> Bone" where
  "root_of (Bone n po h t m c) = (case po of None \<Rightarrow> Bone n po h t m c | Some p \<Rightarrow> root_of p)"

text \<open>
  What Blender guarantees of the bones of an armature: the names are unique, the parent
  of a bone is a bone of the armature, and a bone's collections are collections of the
  armature.
\<close>

definition wf_armature :: "Armature \<Rightarrow> bool" where
  "wf_armature a \<longleftrightarrow>
     distinct (map name (bones a))
     \<and> list_all (\<lambda>b. case parent b of None \<Rightarrow> True | Some p \<Rightarrow> p \<in> set (bones a)) (bones a)
     \<and> list_all (\<lambda>b. set (collections b) \<subseteq> set (collections_all a)) (bones a)"

text \<open>The test of the first loop: the bone is explicitly included.\<close>

definition explicitly_included :: "string list \<Rightarrow> string \<Rightarrow> int list \<Rightarrow> Bone \<Rightarrow> bool" where
  "explicitly_included bone_collections bone_filter_mode bone_collection_indices bone \<longleftrightarrow>
     bone_filter_mode = ''ALL''
     \<or> (collections bone = [] \<and> (- 1) \<in> set bone_collection_indices)
     \<or> (\<exists>c \<in> set (collections bone).
            case list_index c bone_collections of
              None \<Rightarrow> False
            | Some j \<Rightarrow> int j \<in> set bone_collection_indices)"

text \<open>
  The bones to export, whatever the order of the visits: the explicitly included bones
  and the bones above them.
\<close>

definition exported :: "Armature \<Rightarrow> string \<Rightarrow> int list \<Rightarrow> Bone \<Rightarrow> bool" where
  "exported a bone_filter_mode bone_collection_indices b \<longleftrightarrow>
     (\<exists>s \<in> set (bones a).
        explicitly_included (collections_all a) bone_filter_mode bone_collection_indices s
        \<and> (b = s \<or> b \<in> set (ancestors s)))"

text \<open>
  A list of bone names is a single tree of the hierarchy: the names are distinct names
  of bones of the hierarchy, one of the named bones has no parent, and from every named
  bone the chain of parents stays among the named bones and ends at that bone.
\<close>

definition single_tree :: "Bone list \<Rightarrow> string list \<Rightarrow> bool" where
  "single_tree bs names \<longleftrightarrow>
     distinct names \<and> set names \<subseteq> name ` set bs
     \<and> (\<exists>r \<in> set bs. parent r = None \<and> name r \<in> set names
          \<and> (\<forall>b \<in> set bs. name b \<in> set names \<longrightarrow>
                root_of b = r \<and> (\<forall>a \<in> set (ancestors b). name a \<in> set names)))"

text \<open>
  The index that the walk finds for the parent of the bone at index \<open>k\<close>:
  \<open>bone_names.index(bone.parent.name)\<close>.
\<close>

definition parent_bone_index :: "Bone list \<Rightarrow> nat \<Rightarrow> nat option" where
  "parent_bone_index bs k =
     (case parent (bs ! k) of None \<Rightarrow> None | Some p \<Rightarrow> list_index (name p) (map name bs))"

text \<open>
  The keys are closed under parents, up to the bones still on the stack; and the lookup
  of the parent of a key succeeded.
\<close>

definition closed_keys :: "Bone list \<Rightarrow> nat set \<Rightarrow> nat set \<Rightarrow> bool" where
  "closed_keys bs K T \<longleftrightarrow>
     (\<forall>k \<in> K. k < length bs \<and>
        (\<forall>p. parent (bs ! k) = Some p \<longrightarrow>
           (\<exists>j. list_index (name p) (map name bs) = Some j \<and> j \<in> K \<union> T)))"


text \<open>
  An instigator is a key, and the key is the index found for the parent of the
  instigator.
\<close>

definition instigators_ok ::
  "Bone list \<Rightarrow> (nat \<times> nat option) list \<Rightarrow> (nat \<times> nat option) list \<Rightarrow> bool" where
  "instigators_ok bs st bi \<longleftrightarrow>
     (\<forall>e \<in> set st \<union> set bi. \<forall>j. snd e = Some j \<longrightarrow>
        j \<in> fst ` set bi \<and> j < length bs \<and> parent_bone_index bs j = Some (fst e))"

section \<open>The writer: theorems\<close>

lemma length_le32: "length (le32 w) = 4"
  by (simp add: le32_def)

lemma length_Section_buffer: "length (Section_buffer s) = 28"
  by (simp add: Section_buffer_def length_le32)

lemma length_payload:
  "wf_ctype T \<Longrightarrow> length (concat (map (buffer T) xs)) = sizeof T * length xs"
  by (induction xs) (simp_all add: wf_ctype_def)

lemma length_payload_comp:
  "wf_ctype T \<Longrightarrow> length (concat (map (buffer T \<circ> f) xs)) = sizeof T * length xs"
  using length_payload [of T "map f xs"] by simp

lemma wf_zero_ctype: "wf_ctype (zero_ctype n)"
  by (simp add: wf_ctype_def zero_ctype_def)

lemma wf_zero_types: "wf_psk_types zero_types"
  by (simp add: wf_psk_types_def zero_types_def wf_zero_ctype)

lemma psk_file_sections: "psk_file T psk = concat (map section_image (spec_sections T psk))"
  by (simp add: psk_file_def spec_sections_def section_image_def write_section_def
      Section_init_def encode_wedges_def)

lemma spec_sections_lengths:
  assumes "wf_psk_types T" and "sp \<in> set (spec_sections T psk)"
  shows "length (snd sp) = data_size (fst sp) * data_count (fst sp)"
  using assms unfolding wf_psk_types_def spec_sections_def
  by (auto simp: length_payload length_payload_comp)

lemma to_Wedge16_fits:
  "0 \<le> point_index w \<Longrightarrow> point_index w < 65536 \<Longrightarrow>
     uint (point_index16 (to_Wedge16 w)) = point_index w"
  by (simp add: to_Wedge16_def uint_word_of_int)

text \<open>
  C3. The capacity checks bound the number of wedges, not the values of their point
  indices: a container with 65537 points and a single wedge that refers to point 65536
  passes every check, and the \<open>Wedge16\<close> written for that wedge has point index 0.
\<close>

theorem export_psk_point_index_wraps:
  "fst (export_psk zero_types overflow_psk ''out.psk'' Map.empty) = Inr ()
   \<and> map point_index (wedges overflow_psk) = [65536]
   \<and> map point_index16 (encode_wedges (wedges overflow_psk)) = [0]"
  by (simp add: export_psk_def overflow_psk_def encode_wedges_def to_Wedge16_def
      MAX_WEDGE_COUNT_def MAX_POINT_COUNT_def MAX_MATERIAL_COUNT_def MAX_BONE_COUNT_def)

text \<open>
  C4. \<open>export_psk\<close> fails exactly when the wedge count exceeds 65536, the point count
  exceeds 4294967296, the material count exceeds 256, the bone count exceeds 256 or
  there is no bone; and when it fails the file system is what it was before the call.
\<close>

theorem export_psk_capacity:
  "(isl (fst (export_psk T psk path fs)) \<longleftrightarrow>
      length (wedges psk) > 65536 \<or> length (points psk) > 4294967296 \<or>
      length (materials psk) > 256 \<or> length (Psk.bones psk) > 256 \<or> length (Psk.bones psk) = 0)
   \<and> (isl (fst (export_psk T psk path fs)) \<longrightarrow> snd (export_psk T psk path fs) = fs)"
  by (simp add: export_psk_def MAX_WEDGE_COUNT_def MAX_POINT_COUNT_def
      MAX_MATERIAL_COUNT_def MAX_BONE_COUNT_def)

theorem export_psk_capacity_witness:
  "isl (fst (export_psk zero_types no_bones_psk ''out.psk'' [''out.psk'' \<mapsto> [1]]))
   \<and> snd (export_psk zero_types no_bones_psk ''out.psk'' [''out.psk'' \<mapsto> [1]])
       ''out.psk'' = Some [1]"
  using export_psk_capacity [of zero_types no_bones_psk "''out.psk''" "[''out.psk'' \<mapsto> [1]]"]
  by (simp add: minimal_psk_def no_bones_psk_def)

text \<open>
  C5. When the capacity checks pass, the file at the path is the concatenation of the
  seven sections ACTRHEAD, PNTS0000, VTXW0000, FACE0000, MATT0000, REFSKELT, RAWWEIGHTS
  in this order; each is a 28-byte header followed by a payload of
  \<open>data_size * data_count\<close> bytes; the header section has size and count 0; and the
  length of the file is the sum of \<open>28 + data_size * data_count\<close> over the sections.
\<close>

theorem export_psk_layout:
  assumes "wf_psk_types T" and "fst (export_psk T psk path fs) = Inr ()"
  shows "snd (export_psk T psk path fs) path
           = Some (concat (map section_image (spec_sections T psk)))
       \<and> map (\<lambda>sp. Section.name (fst sp)) (spec_sections T psk)
           = [''ACTRHEAD'', ''PNTS0000'', ''VTXW0000'', ''FACE0000'', ''MATT0000'',
              ''REFSKELT'', ''RAWWEIGHTS'']
       \<and> (\<forall>sp \<in> set (spec_sections T psk).
             section_image sp = Section_buffer (fst sp) @ snd sp
           \<and> length (Section_buffer (fst sp)) = 28
           \<and> length (snd sp) = data_size (fst sp) * data_count (fst sp))
       \<and> data_size (fst (hd (spec_sections T psk))) = 0
       \<and> data_count (fst (hd (spec_sections T psk))) = 0
       \<and> length (concat (map section_image (spec_sections T psk)))
           = (\<Sum>sp \<leftarrow> spec_sections T psk. 28 + data_size (fst sp) * data_count (fst sp))"
proof -
  have written: "snd (export_psk T psk path fs) path = Some (psk_file T psk)"
    using assms(2) by (simp add: export_psk_def split: if_splits)
  have names: "map (\<lambda>sp. Section.name (fst sp)) (spec_sections T psk)
      = [''ACTRHEAD'', ''PNTS0000'', ''VTXW0000'', ''FACE0000'', ''MATT0000'',
         ''REFSKELT'', ''RAWWEIGHTS'']"
    by (simp add: spec_sections_def)
  have each: "\<forall>sp \<in> set (spec_sections T psk).
        section_image sp = Section_buffer (fst sp) @ snd sp
      \<and> length (Section_buffer (fst sp)) = 28
      \<and> length (snd sp) = data_size (fst sp) * data_count (fst sp)"
    using spec_sections_lengths [OF assms(1)]
    by (simp add: section_image_def length_Section_buffer)
  have head: "data_size (fst (hd (spec_sections T psk))) = 0"
    "data_count (fst (hd (spec_sections T psk))) = 0"
    by (simp_all add: spec_sections_def)
  have "length (concat (map section_image sps))
      = (\<Sum>sp \<leftarrow> sps. 28 + data_size (fst sp) * data_count (fst sp))"
    if "\<forall>sp \<in> set sps. section_image sp = Section_buffer (fst sp) @ snd sp
          \<and> length (Section_buffer (fst sp)) = 28
          \<and> length (snd sp) = data_size (fst sp) * data_count (fst sp)" for sps
    using that by (induction sps) simp_all
  from this [OF each] written names each head show ?thesis
    by (simp add: psk_file_sections)
qed

theorem export_psk_layout_witness:
  "wf_psk_types zero_types
   \<and> fst (export_psk zero_types minimal_psk ''out.psk'' Map.empty) = Inr ()
   \<and> length (the (snd (export_psk zero_types minimal_psk ''out.psk'' Map.empty) ''out.psk''))
       = 7 * 28 + (12 + 16 + 12 + 88 + 120 + 12)"
proof -
  have ok: "fst (export_psk zero_types minimal_psk ''out.psk'' Map.empty) = Inr ()"
    by (simp add: export_psk_def minimal_psk_def MAX_WEDGE_COUNT_def MAX_POINT_COUNT_def
        MAX_MATERIAL_COUNT_def MAX_BONE_COUNT_def)
  have "(\<Sum>sp \<leftarrow> spec_sections zero_types minimal_psk.
            28 + data_size (fst sp) * data_count (fst sp)) = 7 * 28 + (12 + 16 + 12 + 88 + 120 + 12)"
    by (simp add: spec_sections_def zero_types_def zero_ctype_def minimal_psk_def)
  with export_psk_layout [OF wf_zero_types ok] wf_zero_types ok show ?thesis
    by simp
qed

section \<open>The transformer: theorems\<close>

lemma list_index_Some: "list_index a xs = Some i \<Longrightarrow> i < length xs \<and> xs ! i = a"
  by (induction xs arbitrary: i) (auto split: if_splits)

lemma list_index_None: "list_index a xs = None \<longleftrightarrow> a \<notin> set xs"
  by (induction xs) auto

lemma list_index_nth: "distinct xs \<Longrightarrow> i < length xs \<Longrightarrow> list_index (xs ! i) xs = Some i"
proof (induction xs arbitrary: i)
  case Nil
  then show ?case by simp
next
  case (Cons a xs)
  then show ?case by (cases i) auto
qed

lemma double_location_simps:
  "double_location (q\<lparr>children_count := c\<rparr>) = (double_location q)\<lparr>children_count := c\<rparr>"
  "children_count (double_location q) = children_count q"
  by (simp_all add: double_location_def)

lemma scale_location_double:
  "scale_location lib (Matrix_Scale (2 * s)) world loc
     = (let l = scale_location lib (Matrix_Scale s) world loc
        in Vector (2 * vx l) (2 * vy l) (2 * vz l))"
  by (cases loc) (simp add: scale_location_def Matrix_Scale_def Let_def)

lemma resolve_parent_double:
  "resolve_parent bs bone psx (map double_location psx_bones)
     = map_sum id (\<lambda>(q, qs). (q, map double_location qs)) (resolve_parent bs bone psx psx_bones)"
  by (auto simp: resolve_parent_def map_update double_location_simps split: option.splits)

lemma convert_bone_double:
  "convert_bone lib bs es world (Matrix_Scale (2 * s)) cst cdr (map double_location psx_bones) bone
     = map_sum id (map double_location)
         (convert_bone lib bs es world (Matrix_Scale s) cst cdr psx_bones bone)"
  by (auto simp: convert_bone_def resolve_parent_double scale_location_double
      double_location_def Let_def split: option.splits sum.splits)

lemma convert_loop_double:
  "convert_loop lib bs es world (Matrix_Scale (2 * s)) cst cdr rest (map double_location psx_bones)
     = map_sum id (map double_location)
         (convert_loop lib bs es world (Matrix_Scale s) cst cdr rest psx_bones)"
proof (induction rest arbitrary: psx_bones)
  case Nil
  show ?case by simp
next
  case (Cons bone rest)
  show ?case
  proof (cases "convert_bone lib bs es world (Matrix_Scale s) cst cdr psx_bones bone")
    case (Inl e)
    then show ?thesis by (simp add: convert_bone_double)
  next
    case (Inr qs)
    then show ?thesis by (simp add: convert_bone_double Cons.IH)
  qed
qed

text \<open>
  C9. With the scale doubled and everything else the same, the transformer fails with
  the same error or returns the same list of bones except that each location is twice
  what it was: the rotation (and every other field) of every bone is the same.
\<close>

theorem scale_doubling:
  "convert_blender_bones_to_psx_bones lib bs export_space world (2 * s) forward_axis up_axis
     = map_sum id (map double_location)
         (convert_blender_bones_to_psx_bones lib bs export_space world s forward_axis up_axis)"
  using convert_loop_double [of lib bs export_space world s _ _ bs "[]"]
  by (simp add: convert_blender_bones_to_psx_bones_def Let_def)

lemma converted_children_count:
  "converted lib bs es world sm cst cdr bone (q\<lparr>children_count := c\<rparr>)
     = converted lib bs es world sm cst cdr bone q"
  by (simp add: converted_def)

lemma convert_bone_Inr:
  assumes "convert_bone lib bs es world sm cst cdr psx_bones bone = Inr out"
  shows "\<exists>q qs. out = qs @ [q] \<and> converted lib bs es world sm cst cdr bone q
           \<and> children_count q = 0
           \<and> (case index_of_parent bs bone of
                None \<Rightarrow> qs = psx_bones
              | Some i \<Rightarrow> i < length psx_bones
                  \<and> qs = psx_bones[i := (psx_bones ! i)
                           \<lparr>children_count := children_count (psx_bones ! i) + 1\<rparr>])"
  using assms
  by (auto simp: convert_bone_def resolve_parent_def converted_def bone_class_def
      split: option.splits sum.splits if_splits)

text \<open>
  The invariant of the transformer's loop, for the bones \<open>done\<close> so far and their
  exported bones \<open>psx_bones\<close>: each exported bone is the conversion of its bone, every
  parent index found so far is a position of \<open>psx_bones\<close>, and each
  \<open>children_count\<close> is the number of bones so far with that parent index.
\<close>

lemma convert_loop_invariant:
  assumes "convert_loop lib bs es world sm cst cdr rest psx_bones = Inr out"
    and "list_all2 (converted lib bs es world sm cst cdr) done psx_bones"
    and "\<forall>b \<in> set done. \<forall>i. index_of_parent bs b = Some i \<longrightarrow> i < length psx_bones"
    and "\<forall>i < length psx_bones. children_count (psx_bones ! i) = int (children_of bs done i)"
  shows "list_all2 (converted lib bs es world sm cst cdr) (done @ rest) out
       \<and> (\<forall>b \<in> set (done @ rest). \<forall>i. index_of_parent bs b = Some i \<longrightarrow> i < length out)
       \<and> (\<forall>i < length out. children_count (out ! i) = int (children_of bs (done @ rest) i))"
  using assms
proof (induction rest arbitrary: psx_bones "done")
  case Nil
  then show ?case by simp
next
  case (Cons bone rest)
  from Cons.prems(1) obtain mid where
    mid: "convert_bone lib bs es world sm cst cdr psx_bones bone = Inr mid"
    and loop: "convert_loop lib bs es world sm cst cdr rest mid = Inr out"
    by (auto split: sum.splits)
  from convert_bone_Inr [OF mid] obtain q qs where
    out: "mid = qs @ [q]" and q: "converted lib bs es world sm cst cdr bone q"
    and q0: "children_count q = 0"
    and qs: "case index_of_parent bs bone of
                None \<Rightarrow> qs = psx_bones
              | Some i \<Rightarrow> i < length psx_bones
                  \<and> qs = psx_bones[i := (psx_bones ! i)
                           \<lparr>children_count := children_count (psx_bones ! i) + 1\<rparr>]"
    by blast
  have len: "length qs = length psx_bones"
    using qs by (auto split: option.splits)
  have "list_all2 (converted lib bs es world sm cst cdr) done qs"
    using Cons.prems(2) qs
    by (auto simp: list_all2_conv_all_nth nth_list_update converted_children_count
        split: option.splits)
  then have A: "list_all2 (converted lib bs es world sm cst cdr) (done @ [bone]) mid"
    using q out by (simp add: list_all2_appendI)
  have B: "\<forall>b \<in> set (done @ [bone]). \<forall>i. index_of_parent bs b = Some i \<longrightarrow> i < length mid"
    using Cons.prems(3) qs out len by (auto split: option.splits)
  have C: "\<forall>i < length mid. children_count (mid ! i) = int (children_of bs (done @ [bone]) i)"
  proof (intro allI impI)
    fix i assume i: "i < length mid"
    show "children_count (mid ! i) = int (children_of bs (done @ [bone]) i)"
    proof (cases "i < length psx_bones")
      case True
      then show ?thesis
        using Cons.prems(4) qs out len
        by (auto simp: nth_append children_of_def nth_list_update split: option.splits)
    next
      case False
      with i out len have i_eq: "i = length psx_bones" by simp
      have "filter (\<lambda>b. index_of_parent bs b = Some i) (done @ [bone]) = []"
        using Cons.prems(3) qs i_eq by (auto simp: filter_empty_conv split: option.splits)
      then show ?thesis
        using i_eq out len q0 by (simp add: children_of_def nth_append)
    qed
  qed
  from Cons.IH [OF loop A B C] show ?case by simp
qed

lemma convert_result:
  assumes "convert_blender_bones_to_psx_bones lib bs es world s fwd up = Inr psx"
  shows "list_all2 (converted lib bs es world (Matrix_Scale s)
             (get_coordinate_system_transform lib fwd up)
             (to_quaternion lib (get_coordinate_system_transform lib fwd up))) bs psx"
    and "\<forall>i < length psx. children_count (psx ! i) = int (children_of bs bs i)"
  using convert_loop_invariant [of lib bs es world "Matrix_Scale s"
      "get_coordinate_system_transform lib fwd up"
      "to_quaternion lib (get_coordinate_system_transform lib fwd up)" bs "[]" psx "[]"] assms
  by (simp_all add: convert_blender_bones_to_psx_bones_def Let_def)

lemma index_of_parent_distinct:
  assumes "distinct bs" and "i < length bs"
  shows "index_of_parent bs b = Some i \<longleftrightarrow> parent b = Some (bs ! i)"
  using assms
  by (auto simp: index_of_parent_def list_index_nth split: option.splits
      dest: list_index_Some)

text \<open>
  C10. When the transformer returns, it returns one exported bone per input bone; a bone
  without a parent, or whose parent is not in the input list, has parent index 0; a bone
  whose parent is in the list has the parent's position as its parent index; and the
  \<open>children_count\<close> of each exported bone is the number of input bones whose parent is
  its bone. The bones of the input list are distinct.
\<close>

theorem children_count_exact:
  assumes "convert_blender_bones_to_psx_bones lib bs es world s fwd up = Inr psx"
    and "distinct bs"
  shows "length psx = length bs
       \<and> (\<forall>i < length bs.
             ((\<forall>p. parent (bs ! i) = Some p \<longrightarrow> p \<notin> set bs) \<longrightarrow> parent_index (psx ! i) = 0)
           \<and> (\<forall>p. parent (bs ! i) = Some p \<and> p \<in> set bs \<longrightarrow>
                  0 \<le> parent_index (psx ! i) \<and> nat (parent_index (psx ! i)) < length bs
                  \<and> bs ! nat (parent_index (psx ! i)) = p)
           \<and> children_count (psx ! i)
               = int (card {j. j < length bs \<and> parent (bs ! j) = Some (bs ! i)}))"
proof -
  note res = convert_result [OF assms(1)]
  have len: "length psx = length bs"
    using res(1) by (simp add: list_all2_lengthD)
  have "parent_index (psx ! i) = 0"
    if "i < length bs" and "\<forall>p. parent (bs ! i) = Some p \<longrightarrow> p \<notin> set bs" for i
  proof -
    from that(2) have "index_of_parent bs (bs ! i) = None"
      by (auto simp: index_of_parent_def list_index_None split: option.splits)
    with list_all2_nthD [OF res(1) that(1)] show ?thesis
      by (simp add: converted_def)
  qed
  moreover have "0 \<le> parent_index (psx ! i) \<and> nat (parent_index (psx ! i)) < length bs
      \<and> bs ! nat (parent_index (psx ! i)) = p"
    if "i < length bs" and "parent (bs ! i) = Some p" and "p \<in> set bs" for i p
  proof -
    from that(3) obtain k where k: "list_index p bs = Some k"
      using list_index_None [of p bs] by (cases "list_index p bs") auto
    with that(2) have "index_of_parent bs (bs ! i) = Some k"
      by (simp add: index_of_parent_def)
    with list_all2_nthD [OF res(1) that(1)] have "parent_index (psx ! i) = int k"
      by (simp add: converted_def)
    with list_index_Some [OF k] show ?thesis by simp
  qed
  moreover have "children_count (psx ! i)
      = int (card {j. j < length bs \<and> parent (bs ! j) = Some (bs ! i)})"
    if "i < length bs" for i
  proof -
    have "children_count (psx ! i) = int (children_of bs bs i)"
      using res(2) that len by simp
    also have "children_of bs bs i
        = card {j. j < length bs \<and> index_of_parent bs (bs ! j) = Some i}"
      by (simp add: children_of_def length_filter_conv_card)
    also have "{j. j < length bs \<and> index_of_parent bs (bs ! j) = Some i}
        = {j. j < length bs \<and> parent (bs ! j) = Some (bs ! i)}"
      using index_of_parent_distinct [OF assms(2) that] by simp
    finally show ?thesis .
  qed
  ultimately show ?thesis using len by blast
qed

lemmas sample_defs =
  identity_library_def root_bone_def mid_bone_def tip_bone_def other_bone_def chain_object_def

lemmas transformer_defs =
  convert_blender_bones_to_psx_bones_def convert_bone_def resolve_parent_def
  index_of_parent_def bone_transform_def get_armature_local_matrix_def scale_location_def
  encode_windows_1252_def bytes_of_def bone_class_def Matrix_Scale_def Matrix_Identity_def
  conjugated_def inverted_def quat_mul_def quat_rotate_def vec_add_def vec_sub_def

lemma chain_converted:
  "convert_blender_bones_to_psx_bones identity_library chain_bones
       ''WORLD'' Matrix_Identity 1 ''X'' ''Z'' = Inr chain_psx_bones"
  by (simp add: chain_bones_def chain_psx_bones_def transformer_defs sample_defs Let_def)

lemma distinct_chain_bones: "distinct chain_bones"
  by (simp add: chain_bones_def sample_defs)

theorem children_count_exact_witness:
  "convert_blender_bones_to_psx_bones identity_library chain_bones
       ''WORLD'' Matrix_Identity 1 ''X'' ''Z'' = Inr chain_psx_bones
   \<and> distinct chain_bones
   \<and> length chain_psx_bones = length chain_bones
   \<and> parent (chain_bones ! 0) = None
   \<and> parent_index (chain_psx_bones ! 0) = 0
   \<and> children_count (chain_psx_bones ! 0)
       = int (card {j. j < length chain_bones
                      \<and> parent (chain_bones ! j) = Some (chain_bones ! 0)})"
proof -
  note c = children_count_exact [OF chain_converted distinct_chain_bones]
  have z: "0 < length chain_bones" and r: "parent (chain_bones ! 0) = None"
    by (simp_all add: chain_bones_def sample_defs)
  from c have len: "length chain_psx_bones = length chain_bones"
    by (rule conjunct1)
  from c z r have "parent_index (chain_psx_bones ! 0) = 0"
    by simp
  moreover from c z have "children_count (chain_psx_bones ! 0)
      = int (card {j. j < length chain_bones
                     \<and> parent (chain_bones ! j) = Some (chain_bones ! 0)})"
    by blast
  ultimately show ?thesis
    using chain_converted distinct_chain_bones len r by blast
qed

text \<open>
  C6, as stated, fails when the scale is not 1: for the bone \<open>mid\<close> of the chain, whose
  parent is \<open>root\<close>, the transformer with scale 2 exports the location \<open>(0, 4, 0)\<close>,
  while \<open>(parent_tail - parent_head) + child_head\<close> is \<open>(0, 2, 0)\<close>.
\<close>

theorem non_root_location_counterexample:
  "map_sum id (map location)
      (convert_blender_bones_to_psx_bones identity_library [root_bone, mid_bone]
         ''WORLD'' Matrix_Identity 2 ''X'' ''Z'')
     = Inr [Vector 0 0 0, Vector 0 4 0]
   \<and> parent mid_bone = Some root_bone
   \<and> vec_add
        (vec_sub
           (quat_rotate (inverted (to_quaternion identity_library (matrix root_bone)))
              (tail root_bone))
           (quat_rotate (inverted (to_quaternion identity_library (matrix root_bone)))
              (head root_bone)))
        (head mid_bone)
     = Vector 0 2 0"
  by (simp add: transformer_defs sample_defs Let_def)

text \<open>
  C6, amended. For every bone with a parent, the exported rotation is the conjugate of
  the bone's orientation quaternion, and the exported location is
  \<open>(parent_tail - parent_head) + child_head\<close>, with the parent's head and tail
  rotated by the inverse of the parent's rotation and the child's head as it is,
  multiplied by the uniform scale and, axis by axis, by the scale of the armature
  object's world matrix. Neither depends on the forward and up axes.
\<close>

theorem non_root_bone_transform:
  assumes "convert_blender_bones_to_psx_bones lib bs es world s fwd up = Inr psx"
    and "i < length bs" and "parent (bs ! i) = Some p"
  shows "rotation (psx ! i) = conjugated (to_quaternion lib (matrix (bs ! i)))
       \<and> location (psx ! i) =
           (let inverse_parent_rotation = inverted (to_quaternion lib (matrix p));
                parent_head = quat_rotate inverse_parent_rotation (head p);
                parent_tail = quat_rotate inverse_parent_rotation (tail p);
                loc = vec_add (vec_sub parent_tail parent_head) (head (bs ! i));
                armature_object_scale = decompose_scale lib world
            in Vector (s * vx loc * vx armature_object_scale)
                      (s * vy loc * vy armature_object_scale)
                      (s * vz loc * vz armature_object_scale))"
proof -
  from list_all2_nthD [OF convert_result(1) [OF assms(1)] assms(2)] assms(3)
  show ?thesis
    by (auto simp: converted_def bone_transform_def scale_location_def Matrix_Scale_def
        vec_add_def vec_sub_def Let_def)
qed

theorem non_root_bone_transform_witness:
  "convert_blender_bones_to_psx_bones identity_library chain_bones
       ''WORLD'' Matrix_Identity 1 ''X'' ''Z'' = Inr chain_psx_bones
   \<and> 1 < length chain_bones \<and> parent (chain_bones ! 1) = Some root_bone
   \<and> rotation (chain_psx_bones ! 1) = Quaternion 1 0 0 0
   \<and> location (chain_psx_bones ! 1) = Vector 0 2 0"
proof -
  have i: "1 < length chain_bones" and p: "parent (chain_bones ! 1) = Some root_bone"
    by (simp_all add: chain_bones_def sample_defs)
  from non_root_bone_transform [OF chain_converted i p] chain_converted i p
  show ?thesis
    by (simp add: chain_bones_def sample_defs conjugated_def inverted_def quat_rotate_def
        quat_mul_def vec_add_def vec_sub_def Let_def)
qed

lemma explicit_bones_mode:
  assumes "m \<noteq> ''ALL''" and "m' \<noteq> ''ALL''"
  shows "explicit_bones cs m sel i bs st = explicit_bones cs m' sel i bs st"
  using assms
  by (induction bs arbitrary: i st) (simp_all add: Let_def split: sum.splits)

lemma bone_transform_root_invalid:
  assumes "es \<noteq> ''WORLD''" and "es \<noteq> ''ARMATURE''" and "parent b = None"
  shows "bone_transform lib es world cst cdr b = Inl (InvalidExportSpace es)"
  using assms by (simp add: bone_transform_def get_armature_local_matrix_def)

lemma convert_loop_export_space:
  assumes "\<forall>b \<in> set rest. parent b \<noteq> None"
  shows "convert_loop lib bs es world sm cst cdr rest psx_bones
       = convert_loop lib bs es' world sm cst cdr rest psx_bones"
  using assms
proof (induction rest arbitrary: psx_bones)
  case Nil
  show ?case by simp
next
  case (Cons b rest)
  from Cons.prems have eq: "bone_transform lib es world cst cdr b
      = bone_transform lib es' world cst cdr b"
    by (auto simp: bone_transform_def)
  have "convert_bone lib bs es world sm cst cdr psx_bones b
      = convert_bone lib bs es' world sm cst cdr psx_bones b"
    unfolding convert_bone_def eq by (rule refl)
  with Cons show ?case by (simp split: sum.splits)
qed

text \<open>
  C7, as stated, fails: with a filter mode that is neither \<open>ALL\<close> nor
  \<open>BONE_COLLECTIONS\<close> the selector returns what it returns for \<open>BONE_COLLECTIONS\<close>,
  and with an export space that is neither \<open>WORLD\<close> nor \<open>ARMATURE\<close> the
  transformer returns the empty list for the empty list of bones.
\<close>

theorem configuration_counterexample:
  "get_export_bone_names (Some chain_object) ''NONSENSE'' [1] = Some (Inr [''root'', ''mid'', ''tip''])
   \<and> get_export_bone_names (Some chain_object) ''BONE_COLLECTIONS'' [1]
       = Some (Inr [''root'', ''mid'', ''tip''])
   \<and> convert_blender_bones_to_psx_bones identity_library [] ''NONSENSE'' Matrix_Identity 1
       ''X'' ''Z'' = Inr []"
  by (simp add: get_export_bone_names_def finish_def sample_defs
      convert_blender_bones_to_psx_bones_def)

text \<open>
  C7, amended. The selector does not check the filter mode: every value other than
  \<open>ALL\<close> selects by bone collections. The transformer looks at the export space
  when it reaches a bone without a parent: with a value other than \<open>WORLD\<close> and
  \<open>ARMATURE\<close> it returns no bones when some bone of the list has no parent, the
  error being the invalid export space when that bone is the first of the list and its
  name can be encoded; when every bone of the list has a parent the export space has no
  effect.
\<close>

theorem configuration_values:
  "(m \<noteq> ''ALL'' \<longrightarrow>
      get_export_bone_names ob m sel = get_export_bone_names ob ''BONE_COLLECTIONS'' sel)
   \<and> (es \<noteq> ''WORLD'' \<and> es \<noteq> ''ARMATURE'' \<and> (\<exists>b \<in> set bs. parent b = None) \<longrightarrow>
        isl (convert_blender_bones_to_psx_bones lib bs es world s fwd up))
   \<and> (es \<noteq> ''WORLD'' \<and> es \<noteq> ''ARMATURE'' \<and> bs \<noteq> [] \<and> parent (hd bs) = None
        \<and> encode_windows_1252 (name (hd bs)) \<noteq> None \<longrightarrow>
        convert_blender_bones_to_psx_bones lib bs es world s fwd up
          = Inl (InvalidExportSpace es))
   \<and> ((\<forall>b \<in> set bs. parent b \<noteq> None) \<longrightarrow>
        convert_blender_bones_to_psx_bones lib bs es world s fwd up
          = convert_blender_bones_to_psx_bones lib bs ''WORLD'' world s fwd up)"
proof (intro conjI impI)
  assume "m \<noteq> ''ALL''"
  then have eq: "explicit_bones cs m sel i xs st
      = explicit_bones cs ''BONE_COLLECTIONS'' sel i xs st" for cs i xs st
    by (intro explicit_bones_mode) simp_all
  show "get_export_bone_names ob m sel = get_export_bone_names ob ''BONE_COLLECTIONS'' sel"
    unfolding get_export_bone_names_def eq by (rule refl)
next
  assume a: "es \<noteq> ''WORLD'' \<and> es \<noteq> ''ARMATURE'' \<and> (\<exists>b \<in> set bs. parent b = None)"
  then obtain i where i: "i < length bs" "parent (bs ! i) = None"
    by (auto simp: in_set_conv_nth)
  show "isl (convert_blender_bones_to_psx_bones lib bs es world s fwd up)"
  proof (cases "convert_blender_bones_to_psx_bones lib bs es world s fwd up")
    case (Inl e)
    then show ?thesis by simp
  next
    case (Inr psx)
    from list_all2_nthD [OF convert_result(1) [OF Inr] i(1)] a i(2)
    show ?thesis
      by (simp add: converted_def bone_transform_root_invalid)
  qed
next
  assume a: "es \<noteq> ''WORLD'' \<and> es \<noteq> ''ARMATURE'' \<and> bs \<noteq> [] \<and> parent (hd bs) = None
      \<and> encode_windows_1252 (name (hd bs)) \<noteq> None"
  then obtain b rest where bs: "bs = b # rest"
    by (cases bs) auto
  with a show "convert_blender_bones_to_psx_bones lib bs es world s fwd up
      = Inl (InvalidExportSpace es)"
    by (auto simp: convert_blender_bones_to_psx_bones_def convert_bone_def
        resolve_parent_def index_of_parent_def bone_transform_root_invalid Let_def)
next
  assume "\<forall>b \<in> set bs. parent b \<noteq> None"
  then show "convert_blender_bones_to_psx_bones lib bs es world s fwd up
      = convert_blender_bones_to_psx_bones lib bs ''WORLD'' world s fwd up"
    using convert_loop_export_space [of bs lib bs es world _ _ _ "[]" "''WORLD''"]
    by (simp add: convert_blender_bones_to_psx_bones_def Let_def)
qed

theorem configuration_values_witness:
  "''NONSENSE'' \<noteq> ''ALL''
   \<and> get_export_bone_names (Some chain_object) ''NONSENSE'' [1]
       = get_export_bone_names (Some chain_object) ''BONE_COLLECTIONS'' [1]
   \<and> ''NONSENSE'' \<noteq> ''WORLD'' \<and> ''NONSENSE'' \<noteq> ''ARMATURE''
   \<and> (\<exists>b \<in> set chain_bones. parent b = None)
   \<and> chain_bones \<noteq> [] \<and> parent (hd chain_bones) = None
   \<and> encode_windows_1252 (name (hd chain_bones)) \<noteq> None
   \<and> convert_blender_bones_to_psx_bones identity_library chain_bones ''NONSENSE''
       Matrix_Identity 1 ''X'' ''Z'' = Inl (InvalidExportSpace ''NONSENSE'')
   \<and> parent mid_bone \<noteq> None \<and> parent tip_bone \<noteq> None
   \<and> convert_blender_bones_to_psx_bones identity_library [mid_bone, tip_bone] ''NONSENSE''
       Matrix_Identity 1 ''X'' ''Z''
     = convert_blender_bones_to_psx_bones identity_library [mid_bone, tip_bone] ''WORLD''
       Matrix_Identity 1 ''X'' ''Z''"
proof -
  have h: "''NONSENSE'' \<noteq> ''ALL''" "''NONSENSE'' \<noteq> ''WORLD''" "''NONSENSE'' \<noteq> ''ARMATURE''"
    "\<exists>b \<in> set chain_bones. parent b = None"
    "chain_bones \<noteq> []" "parent (hd chain_bones) = None"
    "encode_windows_1252 (name (hd chain_bones)) \<noteq> None"
    "parent mid_bone \<noteq> None" "parent tip_bone \<noteq> None"
    by (simp_all add: chain_bones_def sample_defs encode_windows_1252_def)
  then have all: "\<forall>b \<in> set [mid_bone, tip_bone]. parent b \<noteq> None"
    by simp
  note chain = configuration_values [of "''NONSENSE''" "Some chain_object" "[1]" "''NONSENSE''"
      chain_bones identity_library Matrix_Identity 1 "''X''" "''Z''"]
  note rootless = configuration_values [of "''NONSENSE''" "Some chain_object" "[1]"
      "''NONSENSE''" "[mid_bone, tip_bone]" identity_library Matrix_Identity 1 "''X''" "''Z''"]
  have a: "get_export_bone_names (Some chain_object) ''NONSENSE'' [1]
       = get_export_bone_names (Some chain_object) ''BONE_COLLECTIONS'' [1]"
    by (rule chain [THEN conjunct1, THEN mp, OF h(1)])
  have b: "convert_blender_bones_to_psx_bones identity_library chain_bones ''NONSENSE''
       Matrix_Identity 1 ''X'' ''Z'' = Inl (InvalidExportSpace ''NONSENSE'')"
    by (rule chain [THEN conjunct2, THEN conjunct2, THEN conjunct1, THEN mp])
      (intro conjI h)
  have c: "convert_blender_bones_to_psx_bones identity_library [mid_bone, tip_bone] ''NONSENSE''
       Matrix_Identity 1 ''X'' ''Z''
     = convert_blender_bones_to_psx_bones identity_library [mid_bone, tip_bone] ''WORLD''
       Matrix_Identity 1 ''X'' ''Z''"
    by (rule rootless [THEN conjunct2, THEN conjunct2, THEN conjunct2, THEN mp, OF all])
  show ?thesis
    by (intro conjI h a b c)
qed


section \<open>The selector: theorems\<close>

text \<open>
  An invariant of the walk holds of its result when it holds at the start, when popping a
  bone without pushing keeps it, and when popping a bone and pushing its parent keeps it.
\<close>

lemma walk_invariant_rule:
  assumes "walk bs st bi = Inr out" and "I st bi"
    and "\<forall>k inst st bi. I ((k, inst) # st) bi \<longrightarrow> k < length bs \<longrightarrow>
           (parent (bs ! k) = None
            \<or> (\<exists>p j. parent (bs ! k) = Some p \<and> list_index (name p) (map name bs) = Some j
                  \<and> j \<in> fst ` set bi)) \<longrightarrow>
           I st (AList.update k inst bi)"
    and "\<forall>k inst st bi p j. I ((k, inst) # st) bi \<longrightarrow> k < length bs \<longrightarrow>
           parent (bs ! k) = Some p \<longrightarrow> list_index (name p) (map name bs) = Some j \<longrightarrow>
           j \<notin> fst ` set bi \<longrightarrow>
           I ((j, Some k) # st) (AList.update k inst bi)"
  shows "I [] out"
  using assms
proof (induction bs st bi rule: walk.induct)
  case (1 bs bi)
  then show ?case by simp
next
  case (2 bs k inst st bi)
  note run = "2.prems"(1) and inv = "2.prems"(2)
    and keep = "2.prems"(3) and push = "2.prems"(4)
  from run have k: "k < length bs"
    by (simp split: if_splits)
  then have nk: "\<not> length bs \<le> k" by simp
  show ?case
  proof (cases "parent (bs ! k)")
    case None
    with run k have w: "walk bs st (AList.update k inst bi) = Inr out" by simp
    have "I st (AList.update k inst bi)"
      using keep inv k None by blast
    from "2.IH"(1) [OF nk None w this keep push] show ?thesis
      by blast
  next
    case (Some p)
    with run k obtain j where j: "list_index (name p) (map name bs) = Some j"
      by (auto split: option.splits)
    show ?thesis
    proof (cases "j \<in> fst ` set bi")
      case True
      with run k Some j have w: "walk bs st (AList.update k inst bi) = Inr out" by simp
      have "I st (AList.update k inst bi)"
        using keep inv k Some j True by blast
      from "2.IH"(3) [OF nk Some j _ w this keep push] True show ?thesis
        by blast
    next
      case False
      with run k Some j
      have w: "walk bs ((j, Some k) # st) (AList.update k inst bi) = Inr out" by simp
      have "I ((j, Some k) # st) (AList.update k inst bi)"
        using push inv k Some j False by blast
      from "2.IH"(2) [OF nk Some j False w this keep push] show ?thesis
        by blast
    qed
  qed
qed

lemma walk_keys_superset:
  assumes "walk bs st bi = Inr out"
  shows "fst ` set st \<union> fst ` set bi \<subseteq> fst ` set out"
proof -
  define K where "K = fst ` set st \<union> fst ` set bi"
  have "K \<subseteq> fst ` set ([] :: (nat \<times> nat option) list) \<union> fst ` set out"
    by (rule walk_invariant_rule
        [where I = "\<lambda>st bi. K \<subseteq> fst ` set st \<union> fst ` set bi", OF assms])
      (auto simp: K_def dom_update)
  then show ?thesis by (simp add: K_def)
qed

text \<open>The keys stay inside any set that holds the start and is closed under parents.\<close>

lemma walk_keys_subset:
  assumes "walk bs st bi = Inr out"
    and "fst ` set st \<union> fst ` set bi \<subseteq> S"
    and "\<forall>k \<in> S. \<forall>j. parent_bone_index bs k = Some j \<longrightarrow> j \<in> S"
  shows "fst ` set out \<subseteq> S"
proof -
  have "fst ` set ([] :: (nat \<times> nat option) list) \<union> fst ` set out \<subseteq> S"
    by (rule walk_invariant_rule
        [where I = "\<lambda>st bi. fst ` set st \<union> fst ` set bi \<subseteq> S", OF assms(1)])
      (use assms(2,3) in \<open>auto simp: dom_update parent_bone_index_def\<close>)
  then show ?thesis by simp
qed

lemma closed_keys_keep:
  assumes "closed_keys bs K (insert k T)" and "k < length bs"
    and "parent (bs ! k) = None
         \<or> (\<exists>p j. parent (bs ! k) = Some p \<and> list_index (name p) (map name bs) = Some j
               \<and> j \<in> K)"
  shows "closed_keys bs (insert k K) T"
  using assms unfolding closed_keys_def by fastforce

lemma closed_keys_push:
  assumes "closed_keys bs K (insert k T)" and "k < length bs"
    and "parent (bs ! k) = Some p" and "list_index (name p) (map name bs) = Some j"
  shows "closed_keys bs (insert k K) (insert j T)"
  using assms unfolding closed_keys_def by fastforce

lemma walk_closed:
  assumes "walk bs st bi = Inr out"
    and "closed_keys bs (fst ` set bi) (fst ` set st)"
  shows "closed_keys bs (fst ` set out) {}"
proof -
  have "closed_keys bs (fst ` set out) (fst ` set ([] :: (nat \<times> nat option) list))"
    by (rule walk_invariant_rule
        [where I = "\<lambda>st bi. closed_keys bs (fst ` set bi) (fst ` set st)", OF assms])
      (auto simp: dom_update intro: closed_keys_keep closed_keys_push)
  then show ?thesis by simp
qed

text \<open>The dictionary has each key once.\<close>

lemma walk_distinct:
  assumes "walk bs st bi = Inr out" and "distinct (map fst bi)"
  shows "distinct (map fst out)"
  by (rule walk_invariant_rule [where I = "\<lambda>st bi. distinct (map fst bi)", OF assms(1)])
    (use assms(2) in \<open>auto simp: distinct_update\<close>)

lemma set_alist_update: "set (AList.update k v al) \<subseteq> insert (k, v) (set al)"
  by (induction al) auto

lemma instigators_ok_keep:
  assumes "instigators_ok bs ((k, inst) # st) bi"
  shows "instigators_ok bs st (AList.update k inst bi)"
  unfolding instigators_ok_def
proof (intro ballI allI impI)
  fix e j assume e: "e \<in> set st \<union> set (AList.update k inst bi)" and j: "snd e = Some j"
  from e set_alist_update [of k inst bi]
  have "e \<in> set ((k, inst) # st) \<union> set bi" by auto
  with assms j have "j \<in> fst ` set bi \<and> j < length bs
      \<and> parent_bone_index bs j = Some (fst e)"
    unfolding instigators_ok_def by blast
  then show "j \<in> fst ` set (AList.update k inst bi) \<and> j < length bs
      \<and> parent_bone_index bs j = Some (fst e)"
    by (simp add: dom_update)
qed

lemma instigators_ok_push:
  assumes "instigators_ok bs ((k, inst) # st) bi" and "k < length bs"
    and "parent_bone_index bs k = Some j"
  shows "instigators_ok bs ((j, Some k) # st) (AList.update k inst bi)"
  using instigators_ok_keep [OF assms(1)] assms(2,3)
  by (auto simp: instigators_ok_def dom_update)

lemma walk_instigators:
  assumes "walk bs st bi = Inr out" and "instigators_ok bs st bi"
  shows "instigators_ok bs [] out"
  by (rule walk_invariant_rule [where I = "instigators_ok bs", OF assms])
    (auto intro: instigators_ok_keep instigators_ok_push simp: parent_bone_index_def)

subsection \<open>The first loop\<close>

lemma collection_indices_set:
  "collection_indices cs xs = Inr js \<Longrightarrow>
     set js = {j. \<exists>c \<in> set xs. list_index c cs = Some j}"
  by (induction xs arbitrary: js) (auto split: option.splits sum.splits)

lemma collection_indices_total:
  "set xs \<subseteq> set cs \<Longrightarrow> \<exists>js. collection_indices cs xs = Inr js"
proof (induction xs)
  case Nil
  show ?case by simp
next
  case (Cons c xs)
  then obtain j where "list_index c cs = Some j"
    using list_index_None [of c cs] by (cases "list_index c cs") auto
  with Cons show ?case by auto
qed

lemma explicit_bones_test:
  assumes "collection_indices cs (collections b) = Inr js"
  shows "(m = ''ALL'' \<or> (length (collections b) = 0 \<and> (- 1) \<in> set sel)
            \<or> (\<exists>j \<in> set js. int j \<in> set sel))
       \<longleftrightarrow> explicitly_included cs m sel b"
  unfolding explicitly_included_def collection_indices_set [OF assms]
  by (auto split: option.splits)

lemma explicit_bones_result:
  assumes "explicit_bones cs m sel i rest st = Inr out"
  shows "fst ` set out = fst ` set st
             \<union> {i + k |k. k < length rest \<and> explicitly_included cs m sel (rest ! k)}
       \<and> (\<forall>e \<in> set out. e \<in> set st \<or> snd e = None)"
  using assms
proof (induction rest arbitrary: i st)
  case Nil
  then show ?case by simp
next
  case (Cons b rest)
  from Cons.prems obtain js where js: "collection_indices cs (collections b) = Inr js"
    by (auto split: sum.splits)
  have shift: "{i + k |k. k < length (b # rest) \<and> explicitly_included cs m sel ((b # rest) ! k)}
      = (if explicitly_included cs m sel b then {i} else {})
        \<union> {Suc i + k |k. k < length rest \<and> explicitly_included cs m sel (rest ! k)}"
    (is "?L = ?R")
  proof (intro set_eqI iffI)
    fix x assume "x \<in> ?L"
    then obtain k where k: "x = i + k" "k < length (b # rest)"
      "explicitly_included cs m sel ((b # rest) ! k)" by blast
    then show "x \<in> ?R" by (cases k) auto
  next
    fix x assume "x \<in> ?R"
    then consider "x = i" "explicitly_included cs m sel b"
      | k where "x = Suc i + k" "k < length rest" "explicitly_included cs m sel (rest ! k)"
      by (auto split: if_splits)
    then show "x \<in> ?L"
    proof cases
      case 1
      then have "x = i + 0 \<and> 0 < length (b # rest) \<and> explicitly_included cs m sel ((b # rest) ! 0)"
        by simp
      then show ?thesis by blast
    next
      case 2
      then have "x = i + Suc k \<and> Suc k < length (b # rest)
          \<and> explicitly_included cs m sel ((b # rest) ! Suc k)"
        by simp
      then show ?thesis by blast
    qed
  qed
  show ?case
  proof (cases "explicitly_included cs m sel b")
    case True
    with Cons.prems js explicit_bones_test [OF js, of m sel]
    have "explicit_bones cs m sel (Suc i) rest ((i, None) # st) = Inr out"
      by (auto simp: Let_def split: if_splits)
    from Cons.IH [OF this] True show ?thesis
      unfolding shift by auto
  next
    case False
    with Cons.prems js explicit_bones_test [OF js, of m sel]
    have "explicit_bones cs m sel (Suc i) rest st = Inr out"
      by (auto simp: Let_def split: if_splits)
    from Cons.IH [OF this] False show ?thesis
      unfolding shift by auto
  qed
qed

lemma explicit_bones_total:
  assumes "\<forall>b \<in> set rest. set (collections b) \<subseteq> set cs"
  shows "\<exists>out. explicit_bones cs m sel i rest st = Inr out"
  using assms
proof (induction rest arbitrary: i st)
  case Nil
  show ?case by simp
next
  case (Cons b rest)
  then obtain js where "collection_indices cs (collections b) = Inr js"
    using collection_indices_total [of "collections b" cs] by auto
  with Cons show ?case by (simp add: Let_def)
qed

subsection \<open>The walk returns\<close>

lemma walk_total:
  assumes "\<forall>b \<in> set bs. \<forall>p. parent b = Some p \<longrightarrow> name p \<in> set (map name bs)"
    and "\<forall>e \<in> set st. fst e < length bs"
  shows "\<exists>out. walk bs st bi = Inr out"
  using assms
proof (induction bs st bi rule: walk.induct)
  case (1 bs bi)
  show ?case by simp
next
  case (2 bs k inst st bi)
  from "2.prems"(2) have k: "k < length bs" by simp
  then have nk: "\<not> length bs \<le> k" by simp
  from "2.prems"(2) have st: "\<forall>e \<in> set st. fst e < length bs" by simp
  show ?case
  proof (cases "parent (bs ! k)")
    case None
    from "2.IH"(1) [OF nk None "2.prems"(1) st] None k show ?thesis by simp
  next
    case (Some p)
    with "2.prems"(1) k have "name p \<in> set (map name bs)"
      using nth_mem [OF k] by blast
    then obtain j where j: "list_index (name p) (map name bs) = Some j"
      using list_index_None [of "name p" "map name bs"]
      by (cases "list_index (name p) (map name bs)") auto
    then have jn: "j < length bs" using list_index_Some [OF j] by simp
    show ?thesis
    proof (cases "j \<in> fst ` set bi")
      case True
      from "2.IH"(3) [OF nk Some j _ "2.prems"(1) st] True Some j k show ?thesis by simp
    next
      case False
      from jn st have "\<forall>e \<in> set ((j, Some k) # st). fst e < length bs" by simp
      from "2.IH"(2) [OF nk Some j False "2.prems"(1) this] False Some j k show ?thesis by simp
    qed
  qed
qed

subsection \<open>Parents and ancestors\<close>

lemma parent_size: "parent b = Some p \<Longrightarrow> size p < size b"
  by (cases b) simp

lemma ancestors_parent:
  "ancestors b = (case parent b of None \<Rightarrow> [] | Some p \<Rightarrow> p # ancestors p)"
  by (cases b) simp

lemma root_of_parent:
  "root_of b = (case parent b of None \<Rightarrow> b | Some p \<Rightarrow> root_of p)"
  by (cases b) (simp split: option.splits)

lemma ancestors_cases:
  "a \<in> set (ancestors b) \<Longrightarrow> \<exists>q. parent b = Some q \<and> (a = q \<or> a \<in> set (ancestors q))"
  by (cases "parent b") (simp_all add: ancestors_parent [of b])

lemma parent_in_ancestors: "parent b = Some p \<Longrightarrow> p \<in> set (ancestors b)"
  by (simp add: ancestors_parent [of b])

lemma ancestors_step:
  "a \<in> set (ancestors b) \<Longrightarrow> parent a = Some p \<Longrightarrow> p \<in> set (ancestors b)"
proof (induction "size b" arbitrary: b rule: less_induct)
  case less
  from ancestors_cases [OF less.prems(1)] obtain q where q: "parent b = Some q"
    and a: "a = q \<or> a \<in> set (ancestors q)"
    by blast
  from a show ?case
  proof
    assume "a = q"
    with less.prems(2) have "p \<in> set (ancestors q)" by (simp add: parent_in_ancestors)
    with q show ?thesis by (simp add: ancestors_parent [of b])
  next
    assume "a \<in> set (ancestors q)"
    from less.hyps [OF parent_size [OF q] this less.prems(2)] q show ?thesis
      by (simp add: ancestors_parent [of b])
  qed
qed

lemma root_of_no_parent: "parent (root_of b) = None"
proof (induction "size b" arbitrary: b rule: less_induct)
  case less
  show ?case
  proof (cases "parent b")
    case None
    then show ?thesis by (simp add: root_of_parent [of b])
  next
    case (Some p)
    with less.hyps [OF parent_size [OF Some]] show ?thesis
      by (simp add: root_of_parent [of b])
  qed
qed

lemma root_of_in: "root_of b = b \<or> root_of b \<in> set (ancestors b)"
proof (induction "size b" arbitrary: b rule: less_induct)
  case less
  show ?case
  proof (cases "parent b")
    case None
    then show ?thesis by (simp add: root_of_parent [of b])
  next
    case (Some p)
    with less.hyps [OF parent_size [OF Some]] show ?thesis
      by (auto simp: root_of_parent [of b] ancestors_parent [of b])
  qed
qed

lemma root_of_ancestor: "a \<in> set (ancestors b) \<Longrightarrow> root_of a = root_of b"
proof (induction "size b" arbitrary: b rule: less_induct)
  case less
  from ancestors_cases [OF less.prems] obtain q where q: "parent b = Some q"
    and a: "a = q \<or> a \<in> set (ancestors q)"
    by blast
  from a less.hyps [OF parent_size [OF q]] have "root_of a = root_of q" by blast
  with q show ?case by (simp add: root_of_parent [of b])
qed

subsection \<open>Bones of a well-formed armature\<close>

lemma name_unique:
  assumes "distinct (map name bs)" and "b \<in> set bs" and "c \<in> set bs" and "name b = name c"
  shows "b = c"
  using assms by (auto simp: distinct_map dest: inj_onD)

lemma index_of_name:
  assumes "distinct (map name bs)" and "p \<in> set bs"
    and "list_index (name p) (map name bs) = Some j"
  shows "bs ! j = p"
proof -
  from list_index_Some [OF assms(3)] have j: "j < length bs" and "map name bs ! j = name p"
    by simp_all
  then have "name (bs ! j) = name p" by simp
  with assms(1,2) j show ?thesis
    by (intro name_unique [of bs]) simp_all
qed

lemma ancestors_in_bones:
  assumes "\<forall>b \<in> set bs. \<forall>p. parent b = Some p \<longrightarrow> p \<in> set bs"
  shows "b \<in> set bs \<Longrightarrow> a \<in> set (ancestors b) \<Longrightarrow> a \<in> set bs"
proof (induction "size b" arbitrary: b rule: less_induct)
  case less
  from ancestors_cases [OF less.prems(2)] obtain q where q: "parent b = Some q"
    and a: "a = q \<or> a \<in> set (ancestors q)"
    by blast
  from q less.prems(1) assms have "q \<in> set bs" by blast
  with a less.hyps [OF parent_size [OF q]] show ?case by blast
qed

lemma closed_keys_ancestors:
  assumes "closed_keys bs K {}" and "distinct (map name bs)"
    and "\<forall>b \<in> set bs. \<forall>p. parent b = Some p \<longrightarrow> p \<in> set bs"
  shows "k \<in> K \<Longrightarrow> a \<in> set (ancestors (bs ! k)) \<Longrightarrow> \<exists>j \<in> K. bs ! j = a"
proof (induction "size (bs ! k)" arbitrary: k rule: less_induct)
  case less
  from ancestors_cases [OF less.prems(2)] obtain q where q: "parent (bs ! k) = Some q"
    and a: "a = q \<or> a \<in> set (ancestors q)"
    by blast
  from assms(1) less.prems(1) q obtain j where k: "k < length bs"
    and j: "list_index (name q) (map name bs) = Some j" "j \<in> K"
    unfolding closed_keys_def by blast
  from k q assms(3) have "q \<in> set bs" using nth_mem [OF k] by blast
  from index_of_name [OF assms(2) this j(1)] have bj: "bs ! j = q" .
  from a show ?case
  proof
    assume "a = q"
    with bj j(2) show ?thesis by blast
  next
    assume "a \<in> set (ancestors q)"
    with less.hyps [of j] bj j(2) parent_size [OF q] show ?thesis by simp
  qed
qed

text \<open>
  The keys of the dictionary after the walk are the indices of the bones that are
  explicitly included or above one that is, for every stack that holds the explicitly
  included bones, in whatever order.
\<close>

lemma explicit_bones_keys:
  assumes "explicit_bones cs m sel 0 bs [] = Inr st"
  shows "fst ` set st = {k. k < length bs \<and> explicitly_included cs m sel (bs ! k)}"
  using explicit_bones_result [OF assms] by simp

lemma walk_keys_exported:
  assumes wf: "wf_armature a"
    and seeds: "fst ` set st
      = {k. k < length (bones a) \<and> explicitly_included (collections_all a) m sel (bones a ! k)}"
    and out: "walk (bones a) st [] = Inr out"
  shows "fst ` set out = {i. i < length (bones a) \<and> exported a m sel (bones a ! i)}"
proof -
  let ?bs = "bones a"
  from wf have D: "distinct (map name ?bs)"
    and P: "\<forall>b \<in> set ?bs. \<forall>p. parent b = Some p \<longrightarrow> p \<in> set ?bs"
    by (auto simp: wf_armature_def list_all_iff split: option.splits)
  let ?S = "{i. i < length ?bs \<and> exported a m sel (?bs ! i)}"
  have "fst ` set out \<subseteq> ?S"
  proof (rule walk_keys_subset [OF out])
    show "fst ` set st \<union> fst ` set [] \<subseteq> ?S"
      unfolding seeds exported_def by auto
    show "\<forall>k \<in> ?S. \<forall>j. parent_bone_index ?bs k = Some j \<longrightarrow> j \<in> ?S"
    proof (intro ballI allI impI)
      fix k j assume k: "k \<in> ?S" and j: "parent_bone_index ?bs k = Some j"
      then obtain p where p: "parent (?bs ! k) = Some p"
        and lj: "list_index (name p) (map name ?bs) = Some j"
        by (auto simp: parent_bone_index_def split: option.splits)
      from k p P have pin: "p \<in> set ?bs" using nth_mem [of k ?bs] by blast
      from index_of_name [OF D pin lj] have bj: "?bs ! j = p" .
      from k obtain s where s: "s \<in> set ?bs"
        "explicitly_included (collections_all a) m sel s"
        "?bs ! k = s \<or> ?bs ! k \<in> set (ancestors s)"
        unfolding exported_def by blast
      from s(3) p have "p \<in> set (ancestors s)"
        by (auto intro: parent_in_ancestors ancestors_step)
      with s(1,2) bj list_index_Some [OF lj] show "j \<in> ?S"
        unfolding exported_def by auto
    qed
  qed
  moreover have "?S \<subseteq> fst ` set out"
  proof
    fix i assume "i \<in> ?S"
    then obtain s where i: "i < length ?bs" and s: "s \<in> set ?bs"
      "explicitly_included (collections_all a) m sel s"
      "?bs ! i = s \<or> ?bs ! i \<in> set (ancestors s)"
      unfolding exported_def by blast
    from s(1) obtain k where k: "k < length ?bs" "?bs ! k = s"
      by (auto simp: in_set_conv_nth)
    with s(2) seeds have "k \<in> fst ` set st" by simp
    with walk_keys_superset [OF out] have kout: "k \<in> fst ` set out" by blast
    have closed: "closed_keys ?bs (fst ` set out) {}"
      by (rule walk_closed [OF out]) (simp add: closed_keys_def)
    from s(3) show "i \<in> fst ` set out"
    proof
      assume "?bs ! i = s"
      with k i D have "i = k"
        by (metis distinct_map distinct_conv_nth)
      with kout show ?thesis by simp
    next
      assume "?bs ! i \<in> set (ancestors s)"
      with closed_keys_ancestors [OF closed D P kout, of "?bs ! i"] k
      obtain j where j: "j \<in> fst ` set out" "?bs ! j = ?bs ! i" by auto
      from closed j(1) have "j < length ?bs" by (auto simp: closed_keys_def)
      with j(2) i D have "j = i"
        by (metis distinct_map distinct_conv_nth)
      with j(1) show ?thesis by simp
    qed
  qed
  ultimately show ?thesis by blast
qed

subsection \<open>The sorted dictionary\<close>

lemma distinct_map_sort_key:
  assumes "distinct (map f xs)"
  shows "distinct (map f (sort_key f xs))"
proof -
  have "card (set (map f (sort_key f xs))) = card (set (map f xs))" by simp
  also have "\<dots> = length (map f xs)" using assms by (rule distinct_card)
  also have "\<dots> = length (map f (sort_key f xs))" by simp
  finally show ?thesis by (rule card_distinct)
qed

lemma sorted_keys:
  assumes "distinct (map fst out)"
  shows "sorted_wrt (<) (map fst (sort_key fst out))"
  using distinct_map_sort_key [OF assms] sorted_sort_key [of fst out]
  by (simp add: strict_sorted_iff)

lemma sorted_indices_filter:
  assumes "sorted_wrt (<) is" and "set is = {i. i < length xs \<and> P (xs ! i)}"
  shows "map (\<lambda>i. xs ! i) is = filter P xs"
proof -
  have "is = filter (\<lambda>i. P (xs ! i)) [0..<length xs]"
  proof (rule sorted_distinct_set_unique)
    show "sorted is" "distinct is"
      using assms(1) by (simp_all add: strict_sorted_iff)
    show "sorted (filter (\<lambda>i. P (xs ! i)) [0..<length xs])"
      by (rule sorted_wrt_filter) simp
    show "distinct (filter (\<lambda>i. P (xs ! i)) [0..<length xs])" by simp
    show "set is = set (filter (\<lambda>i. P (xs ! i)) [0..<length xs])"
      using assms(2) by auto
  qed
  then have "map (\<lambda>i. xs ! i) is = filter P (map (\<lambda>i. xs ! i) [0..<length xs])"
    by (simp add: filter_map comp_def)
  then show ?thesis by (simp add: map_nth)
qed

lemma filter_at_most_one:
  assumes "length (filter P xs) \<le> 1" and "a \<in> set xs" and "b \<in> set xs" and "P a" and "P b"
  shows "a = b"
proof (rule ccontr)
  assume "a \<noteq> b"
  with assms(2-5) have "{a, b} \<subseteq> set (filter P xs)" by simp
  then have "card {a, b} \<le> card (set (filter P xs))"
    by (intro card_mono) simp_all
  also have "\<dots> \<le> length (filter P xs)" by (rule card_length)
  finally show False using assms(1) \<open>a \<noteq> b\<close> by simp
qed

subsection \<open>The end of the selector\<close>

lemma finish_Inr:
  assumes "finish bs out = Some (Inr names)"
  shows "names = map (\<lambda>i. name (bs ! i)) (map fst (sort_key fst out))"
    and "length (filter (\<lambda>i. parent (bs ! i) = None) (map fst (sort_key fst out))) \<le> 1"
  using assms
  by (auto simp: finish_def Let_def comp_def split: if_splits option.splits sum.splits)

lemma finish_few_roots:
  assumes "length (filter (\<lambda>i. parent (bs ! i) = None) (map fst (sort_key fst out))) \<le> 1"
  shows "finish bs out = Some (Inr (map (\<lambda>i. name (bs ! i)) (map fst (sort_key fst out))))"
  using assms by (simp add: finish_def Let_def comp_def)

lemma finish_many_roots:
  assumes "1 < length (filter (\<lambda>i. parent (bs ! i) = None) (map fst (sort_key fst out)))"
    and "print_instigators
           (map (\<lambda>e. name (bs ! fst e)) (sort_key fst out))
           (map (\<lambda>e. case snd e of None \<Rightarrow> None | Some j \<Rightarrow> Some (name (bs ! j)))
              (sort_key fst out))
           (map name (map (\<lambda>i. bs ! i)
              (filter (\<lambda>i. parent (bs ! i) = None) (map fst (sort_key fst out)))))
         = Some (Inr printed)"
  shows "finish bs out =
     Some (Inl (MultipleRoots
       (length (filter (\<lambda>i. parent (bs ! i) = None) (map fst (sort_key fst out))))
       (map name (map (\<lambda>i. bs ! i)
          (filter (\<lambda>i. parent (bs ! i) = None) (map fst (sort_key fst out)))))))"
  using assms by (simp add: finish_def Let_def)

subsection \<open>The diagnostic loop returns\<close>

lemma true_instigator_returns:
  assumes D: "distinct (map name bs)"
    and P: "\<forall>b \<in> set bs. \<forall>p. parent b = Some p \<longrightarrow> p \<in> set bs"
    and I: "instigators_ok bs [] items"
    and dk: "distinct (map fst items)"
    and rng: "\<forall>e \<in> set items. fst e < length bs"
  shows "e \<in> set items \<Longrightarrow>
     \<exists>r. true_instigator (map (\<lambda>e. name (bs ! fst e)) items)
            (map (\<lambda>e. case snd e of None \<Rightarrow> None | Some j \<Rightarrow> Some (name (bs ! j))) items)
            (name (bs ! fst e)) = Some (Inr r)"
proof (induction "sum_list (map size bs) - size (bs ! fst e)" arbitrary: e rule: less_induct)
  case less
  let ?names = "map (\<lambda>e. name (bs ! fst e)) items"
  let ?insts = "map (\<lambda>e. case snd e of None \<Rightarrow> None | Some j \<Rightarrow> Some (name (bs ! j))) items"
  have inj: "fst x = fst y" if "x \<in> set items" "y \<in> set items"
    "name (bs ! fst x) = name (bs ! fst y)" for x y
  proof -
    from that rng have "fst x < length bs" "fst y < length bs" by auto
    with that(3) D show ?thesis
      by (metis distinct_conv_nth length_map nth_map)
  qed
  have "inj_on (\<lambda>e. name (bs ! fst e)) (set items)"
  proof (rule inj_onI)
    fix x y assume xy: "x \<in> set items" "y \<in> set items" "name (bs ! fst x) = name (bs ! fst y)"
    from inj [OF this] dk xy(1,2) show "x = y"
      by (auto simp: distinct_map dest: inj_onD)
  qed
  moreover from dk have "distinct items" by (simp add: distinct_map)
  ultimately have dn: "distinct ?names" by (simp add: distinct_map)
  from less.prems obtain i where i: "i < length items" "items ! i = e"
    by (auto simp: in_set_conv_nth)
  then have "?names ! i = name (bs ! fst e)" by simp
  with list_index_nth [OF dn, of i] i(1)
  have idx: "list_index (name (bs ! fst e)) ?names = Some i" by simp
  show ?case
  proof (cases "snd e")
    case None
    with idx i show ?thesis
      by (subst true_instigator.simps) simp
  next
    case (Some j)
    with I less.prems have j: "j \<in> fst ` set items" "j < length bs"
      "parent_bone_index bs j = Some (fst e)"
      unfolding instigators_ok_def by auto
    from j(1) obtain e' where e': "e' \<in> set items" "fst e' = j" by auto
    from j(3) obtain p where p: "parent (bs ! j) = Some p"
      "list_index (name p) (map name bs) = Some (fst e)"
      by (auto simp: parent_bone_index_def split: option.splits)
    from p(1) P j(2) have "p \<in> set bs" using nth_mem [OF j(2)] by blast
    from index_of_name [OF D this p(2)] have "bs ! fst e = p" .
    with parent_size [OF p(1)] have "size (bs ! fst e) < size (bs ! j)" by simp
    moreover have "size (bs ! j) \<le> sum_list (map size bs)"
      using j(2) by (intro member_le_sum_list) auto
    ultimately have "sum_list (map size bs) - size (bs ! fst e')
        < sum_list (map size bs) - size (bs ! fst e)"
      using e'(2) by simp
    from less.hyps [OF this e'(1)] e'(2) obtain r where
      "true_instigator ?names ?insts (name (bs ! j)) = Some (Inr r)" by auto
    with idx i Some show ?thesis
      by (subst true_instigator.simps) simp
  qed
qed

lemma print_instigators_returns:
  assumes "\<forall>r \<in> set roots. \<exists>x. true_instigator ns is r = Some (Inr x)"
  shows "\<exists>printed. print_instigators ns is roots = Some (Inr printed)"
  using assms
proof (induction roots)
  case Nil
  show ?case by simp
next
  case (Cons r roots)
  then obtain x printed where "true_instigator ns is r = Some (Inr x)"
    "print_instigators ns is roots = Some (Inr printed)" by auto
  then show ?case by simp
qed

subsection \<open>The selector as a whole\<close>

lemma selector_Inr:
  assumes "get_export_bone_names (Some ob) m sel = Some (Inr names)"
  obtains st out where "obj_type ob = ''ARMATURE''"
    and "explicit_bones (collections_all (data ob)) m sel 0 (bones (data ob)) [] = Inr st"
    and "walk (bones (data ob)) st [] = Inr out"
    and "finish (bones (data ob)) out = Some (Inr names)"
  using assms
  by (auto simp: get_export_bone_names_def Let_def split: if_splits sum.splits)

lemma sorted_dictionary:
  assumes "walk bs st [] = Inr out"
  shows "sorted_wrt (<) (map fst (sort_key fst out))"
    and "set (map fst (sort_key fst out)) = fst ` set out"
    and "closed_keys bs (fst ` set out) {}"
proof -
  have "distinct (map fst out)"
    by (rule walk_distinct [OF assms]) simp
  then show "sorted_wrt (<) (map fst (sort_key fst out))" by (rule sorted_keys)
  show "set (map fst (sort_key fst out)) = fst ` set out" by simp
  show "closed_keys bs (fst ` set out) {}"
    by (rule walk_closed [OF assms]) (simp add: closed_keys_def)
qed

text \<open>
  C2. When the selector returns a list of names, the name of the parent of every bone
  named in the list is in the list. The names of the bones are unique.
\<close>

theorem ancestor_closure:
  assumes "get_export_bone_names (Some ob) m sel = Some (Inr names)"
    and "distinct (map name (bones (data ob)))"
  shows "\<forall>b \<in> set (bones (data ob)). name b \<in> set names \<longrightarrow>
           (\<forall>p. parent b = Some p \<longrightarrow> name p \<in> set names)"
proof (intro ballI allI impI)
  let ?bs = "bones (data ob)"
  fix b p assume b: "b \<in> set ?bs" "name b \<in> set names" and p: "parent b = Some p"
  from assms(1) obtain st out where out: "walk ?bs st [] = Inr out"
    and fin: "finish ?bs out = Some (Inr names)"
    by (rule selector_Inr)
  note dict = sorted_dictionary [OF out]
  from finish_Inr(1) [OF fin] dict(2)
  have names: "set names = (\<lambda>i. name (?bs ! i)) ` fst ` set out"
    by (simp add: image_comp comp_def)
  with b(2) obtain k where k: "k \<in> fst ` set out" "name b = name (?bs ! k)" by blast
  from dict(3) k(1) have kn: "k < length ?bs" by (auto simp: closed_keys_def)
  from name_unique [OF assms(2) b(1) nth_mem [OF kn] k(2)] have "b = ?bs ! k" .
  with p dict(3) k(1) obtain j where j: "list_index (name p) (map name ?bs) = Some j"
    "j \<in> fst ` set out"
    unfolding closed_keys_def by blast
  from list_index_Some [OF j(1)] have "name (?bs ! j) = name p" by auto
  with j(2) names show "name p \<in> set names" by force
qed

lemma parents_precede:
  assumes "\<forall>i < length bs. \<forall>p. parent (bs ! i) = Some p \<longrightarrow> (\<exists>j < i. bs ! j = p)"
  shows "k < length bs \<Longrightarrow> a \<in> set (ancestors (bs ! k)) \<Longrightarrow> \<exists>j < k. bs ! j = a"
proof (induction k rule: less_induct)
  case (less k)
  from ancestors_cases [OF less.prems(2)] obtain q where q: "parent (bs ! k) = Some q"
    and a: "a = q \<or> a \<in> set (ancestors q)"
    by blast
  from assms less.prems(1) q obtain j where j: "j < k" "bs ! j = q" by blast
  from a show ?case
  proof
    assume "a = q"
    with j show ?thesis by blast
  next
    assume "a \<in> set (ancestors q)"
    with less.IH [OF j(1)] j less.prems(1) obtain j' where "j' < j" "bs ! j' = a" by auto
    with j(1) show ?thesis by (intro exI [of _ j']) simp
  qed
qed

text \<open>
  C8. When the selector returns a list of names for a well-formed armature, the list is
  the names of the bones at a strictly increasing list of indices of the hierarchy; it is
  the list of the names of the bones to export, in the order of the hierarchy, which does
  not depend on the order of the visits; when every parent precedes its children in the
  hierarchy, every bone above a named bone comes before it in the list; and the walk
  started from any stack that holds the explicitly included bones, in any order, ends
  with a dictionary that gives the same list.
\<close>

theorem selector_order:
  assumes "get_export_bone_names (Some ob) m sel = Some (Inr names)"
    and "wf_armature (data ob)"
  shows "(\<exists>is. sorted_wrt (<) is \<and> set is \<subseteq> {..<length (bones (data ob))}
             \<and> names = map (\<lambda>i. name (bones (data ob) ! i)) is)
       \<and> names = map name (filter (exported (data ob) m sel) (bones (data ob)))
       \<and> ((\<forall>i < length (bones (data ob)). \<forall>p. parent (bones (data ob) ! i) = Some p \<longrightarrow>
               (\<exists>j < i. bones (data ob) ! j = p)) \<longrightarrow>
            (\<forall>i j. i < length names \<and> j < length names
               \<and> (\<exists>c \<in> set (bones (data ob)). \<exists>a \<in> set (ancestors c).
                      names ! j = name c \<and> names ! i = name a) \<longrightarrow> i < j))
       \<and> (\<forall>st' out'.
             fst ` set st' = {k. k < length (bones (data ob))
                \<and> explicitly_included (collections_all (data ob)) m sel (bones (data ob) ! k)}
             \<and> walk (bones (data ob)) st' [] = Inr out' \<longrightarrow>
             map (\<lambda>e. name (bones (data ob) ! fst e)) (sort_key fst out') = names)"
proof -
  let ?bs = "bones (data ob)"
  let ?E = "exported (data ob) m sel"
  from assms(2) have D: "distinct (map name ?bs)"
    and P: "\<forall>b \<in> set ?bs. \<forall>p. parent b = Some p \<longrightarrow> p \<in> set ?bs"
    by (auto simp: wf_armature_def list_all_iff split: option.splits)
  from assms(1) obtain st out
    where st: "explicit_bones (collections_all (data ob)) m sel 0 ?bs [] = Inr st"
      and out: "walk ?bs st [] = Inr out"
      and fin: "finish ?bs out = Some (Inr names)"
    by (rule selector_Inr)
  note dict = sorted_dictionary [OF out]
  define "is" where "is = map fst (sort_key fst out)"
  have sorted: "sorted_wrt (<) is" using dict(1) by (simp add: is_def)
  have keys: "set is = {i. i < length ?bs \<and> ?E (?bs ! i)}"
    using dict(2) walk_keys_exported [OF assms(2) explicit_bones_keys [OF st] out] by (simp add: is_def)
  have names: "names = map (\<lambda>i. name (?bs ! i)) is"
    using finish_Inr(1) [OF fin] by (simp add: is_def)
  have filtered: "names = map name (filter ?E ?bs)"
    using sorted_indices_filter [OF sorted keys] names
    by (metis (no_types, lifting) map_map comp_def map_eq_conv)
  have order: "i < j"
    if H: "\<forall>i < length ?bs. \<forall>p. parent (?bs ! i) = Some p \<longrightarrow> (\<exists>j < i. ?bs ! j = p)"
      and i: "i < length names" and j: "j < length names"
      and c: "c \<in> set ?bs" and a: "a \<in> set (ancestors c)"
      and nj: "names ! j = name c" and ni: "names ! i = name a" for i j c a
  proof -
    from i j names have il: "i < length is" and jl: "j < length is" by simp_all
    with keys have ir: "is ! i < length ?bs" and jr: "is ! j < length ?bs"
      using nth_mem [of i "is"] nth_mem [of j "is"] by auto
    from nj names jl have "name (?bs ! (is ! j)) = name c" by simp
    from name_unique [OF D nth_mem [OF jr] c this] have cj: "?bs ! (is ! j) = c" .
    from ancestors_in_bones [OF P c a] have ain: "a \<in> set ?bs" .
    from ni names il have "name (?bs ! (is ! i)) = name a" by simp
    from name_unique [OF D nth_mem [OF ir] ain this] have ai: "?bs ! (is ! i) = a" .
    from parents_precede [OF H jr] a cj obtain k where k: "k < is ! j" "?bs ! k = a" by auto
    from D have "distinct ?bs" by (simp add: distinct_map)
    moreover from k(1) jr have "k < length ?bs" by simp
    ultimately have "k = is ! i"
      using k(2) ai ir by (auto simp: distinct_conv_nth)
    with k(1) have lt: "is ! i < is ! j" by simp
    show ?thesis
    proof (rule ccontr)
      assume "\<not> i < j"
      then consider "i = j" | "j < i" by linarith
      then show False
      proof cases
        case 1
        with lt show False by simp
      next
        case 2
        from sorted_wrt_nth_less [OF sorted 2 il] lt show False by simp
      qed
    qed
  qed
  have any_order: "map (\<lambda>e. name (?bs ! fst e)) (sort_key fst out') = names"
    if seeds: "fst ` set st' = {k. k < length ?bs
          \<and> explicitly_included (collections_all (data ob)) m sel (?bs ! k)}"
      and out': "walk ?bs st' [] = Inr out'" for st' out'
  proof -
    note dict' = sorted_dictionary [OF out']
    have "map fst (sort_key fst out') = is"
    proof (rule sorted_distinct_set_unique)
      show "sorted (map fst (sort_key fst out'))" "distinct (map fst (sort_key fst out'))"
        using dict'(1) by (simp_all add: strict_sorted_iff)
      show "sorted is" "distinct is"
        using sorted by (simp_all add: strict_sorted_iff)
      show "set (map fst (sort_key fst out')) = set is"
        using dict'(2) walk_keys_exported [OF assms(2) seeds out'] keys by simp
    qed
    then have "map (\<lambda>i. name (?bs ! i)) (map fst (sort_key fst out')) = names"
      using names by simp
    then show ?thesis by (simp add: comp_def)
  qed
  from keys have "set is \<subseteq> {..<length ?bs}" by auto
  with sorted names filtered order any_order show ?thesis by blast
qed


text \<open>
  The indices and the instigators of the dictionary are indices of \<open>bones\<close>, so the
  reads of \<open>finish\<close> are in range.
\<close>

lemma walk_in_range:
  assumes "walk bs st [] = Inr out" and "\<forall>e \<in> set st. snd e = None"
  shows "\<forall>e \<in> set out. fst e < length bs \<and> (\<forall>j. snd e = Some j \<longrightarrow> j < length bs)"
proof
  fix e assume e: "e \<in> set out"
  have "closed_keys bs (fst ` set out) {}"
    by (rule walk_closed [OF assms(1)]) (simp add: closed_keys_def)
  with e have "fst e < length bs" by (auto simp: closed_keys_def)
  moreover have "instigators_ok bs [] out"
    by (rule walk_instigators [OF assms(1)]) (use assms(2) in \<open>simp add: instigators_ok_def\<close>)
  with e have "\<forall>j. snd e = Some j \<longrightarrow> j < length bs"
    by (auto simp: instigators_ok_def)
  ultimately show "fst e < length bs \<and> (\<forall>j. snd e = Some j \<longrightarrow> j < length bs)" by simp
qed

lemma selector_run:
  assumes "obj_type ob = ''ARMATURE''"
    and "explicit_bones (collections_all (data ob)) m sel 0 (bones (data ob)) [] = Inr st"
    and "walk (bones (data ob)) st [] = Inr out"
  shows "get_export_bone_names (Some ob) m sel = finish (bones (data ob)) out"
  using assms by (simp add: get_export_bone_names_def Let_def)

lemma chain_selected:
  "get_export_bone_names (Some chain_object) ''BONE_COLLECTIONS'' [1]
     = Some (Inr [''root'', ''mid'', ''tip''])"
  by (simp add: get_export_bone_names_def finish_def sample_defs)

lemma wf_chain_object: "wf_armature (data chain_object)"
  by (simp add: wf_armature_def sample_defs)

theorem ancestor_closure_witness:
  "get_export_bone_names (Some chain_object) ''BONE_COLLECTIONS'' [1]
     = Some (Inr [''root'', ''mid'', ''tip''])
   \<and> distinct (map name (bones (data chain_object)))
   \<and> tip_bone \<in> set (bones (data chain_object))
   \<and> name tip_bone \<in> set [''root'', ''mid'', ''tip'']
   \<and> parent tip_bone = Some mid_bone
   \<and> name mid_bone \<in> set [''root'', ''mid'', ''tip'']"
proof -
  have d: "distinct (map name (bones (data chain_object)))"
    and t: "tip_bone \<in> set (bones (data chain_object))"
    and n: "name tip_bone \<in> set [''root'', ''mid'', ''tip'']"
    and p: "parent tip_bone = Some mid_bone"
    by (simp_all add: sample_defs)
  have "name mid_bone \<in> set [''root'', ''mid'', ''tip'']"
    by (rule ancestor_closure [OF chain_selected d, THEN bspec, OF t, THEN mp, OF n,
          THEN spec, THEN mp, OF p])
  with chain_selected d t n p show ?thesis by (intro conjI)
qed

theorem selector_order_witness:
  "get_export_bone_names (Some chain_object) ''BONE_COLLECTIONS'' [1]
     = Some (Inr [''root'', ''mid'', ''tip''])
   \<and> wf_armature (data chain_object)
   \<and> [''root'', ''mid'', ''tip'']
       = map name (filter (exported (data chain_object) ''BONE_COLLECTIONS'' [1])
           (bones (data chain_object)))"
  using selector_order [OF chain_selected wf_chain_object, THEN conjunct2, THEN conjunct1]
    chain_selected wf_chain_object
  by (intro conjI)

text \<open>
  C1, as stated, fails when no bone is selected in a hierarchy that has bones: the
  selector returns the empty list, which has no root.
\<close>

theorem selector_empty_counterexample:
  "get_export_bone_names (Some chain_object) ''BONE_COLLECTIONS'' [] = Some (Inr [])
   \<and> bones (data chain_object) \<noteq> []
   \<and> \<not> single_tree (bones (data chain_object)) []"
  by (simp add: get_export_bone_names_def finish_def sample_defs single_tree_def)

text \<open>
  C1, amended. For an armature object and a well-formed armature, the selector returns,
  and what it returns is fixed by the bones to export (the explicitly included bones and
  the bones above them). When at most one of them has no parent, the result is the list
  of their names in the order of the hierarchy; this list is empty exactly when no bone
  is explicitly included, and otherwise it is a single tree of the hierarchy with one
  root. When two or more of them have no parent, the result is the multiple-roots error
  with the number and the names of those bones. For an armature without bones the result
  is the empty list.
\<close>

theorem selector_single_tree:
  assumes "obj_type ob = ''ARMATURE''" and "wf_armature (data ob)"
  shows "((\<exists>names. get_export_bone_names (Some ob) m sel = Some (Inr names)
              \<and> names = map name (filter (exported (data ob) m sel) (bones (data ob)))
              \<and> length (filter (\<lambda>b. exported (data ob) m sel b \<and> parent b = None)
                    (bones (data ob))) \<le> 1
              \<and> ((names = []
                    \<and> \<not> (\<exists>s \<in> set (bones (data ob)).
                            explicitly_included (collections_all (data ob)) m sel s))
                 \<or> ((\<exists>s \<in> set (bones (data ob)).
                         explicitly_included (collections_all (data ob)) m sel s)
                    \<and> single_tree (bones (data ob)) names)))
          \<or> (\<exists>roots. get_export_bone_names (Some ob) m sel
                 = Some (Inl (MultipleRoots (length roots) (map name roots)))
              \<and> 1 < length roots
              \<and> roots = filter (\<lambda>b. exported (data ob) m sel b \<and> parent b = None)
                          (bones (data ob))))
       \<and> (bones (data ob) = [] \<longrightarrow> get_export_bone_names (Some ob) m sel = Some (Inr []))"
proof -
  let ?bs = "bones (data ob)"
  let ?E = "exported (data ob) m sel"
  let ?sel = "\<exists>s \<in> set ?bs. explicitly_included (collections_all (data ob)) m sel s"
  from assms(2) have D: "distinct (map name ?bs)"
    and P: "\<forall>b \<in> set ?bs. \<forall>p. parent b = Some p \<longrightarrow> p \<in> set ?bs"
    and C: "\<forall>b \<in> set ?bs. set (collections b) \<subseteq> set (collections_all (data ob))"
    by (auto simp: wf_armature_def list_all_iff split: option.splits)
  from explicit_bones_total [OF C] obtain st
    where st: "explicit_bones (collections_all (data ob)) m sel 0 ?bs [] = Inr st"
    by blast
  note seeds = explicit_bones_result [OF st]
  from seeds have st_range: "\<forall>e \<in> set st. fst e < length ?bs" by auto
  from seeds have st_none: "\<forall>e \<in> set st. snd e = None" by auto
  from P have "\<forall>b \<in> set ?bs. \<forall>p. parent b = Some p \<longrightarrow> name p \<in> set (map name ?bs)"
    by auto
  from walk_total [OF this st_range] obtain out where out: "walk ?bs st [] = Inr out"
    by blast
  note run = selector_run [OF assms(1) st out]
  note dict = sorted_dictionary [OF out]
  define items where "items = sort_key fst out"
  define "is" where "is = map fst items"
  define names where "names = map (\<lambda>i. name (?bs ! i)) is"
  define rs where "rs = filter (\<lambda>i. parent (?bs ! i) = None) is"
  let ?roots = "map (\<lambda>i. ?bs ! i) rs"
  have sorted: "sorted_wrt (<) is" using dict(1) by (simp add: is_def items_def)
  have keys: "set is = {i. i < length ?bs \<and> ?E (?bs ! i)}"
    using dict(2) walk_keys_exported [OF assms(2) explicit_bones_keys [OF st] out]
    by (simp add: is_def items_def)
  have closed: "closed_keys ?bs (set is) {}"
    using dict(2,3) by (simp add: is_def items_def)
  have "map name (map (\<lambda>i. ?bs ! i) is) = map name (filter ?E ?bs)"
    using sorted_indices_filter [OF sorted keys] by simp
  then have filtered: "names = map name (filter ?E ?bs)"
    by (simp add: names_def comp_def)
  have "sorted_wrt (<) rs" unfolding rs_def using sorted by (rule sorted_wrt_filter)
  moreover have "set rs = {i. i < length ?bs \<and> (?E (?bs ! i) \<and> parent (?bs ! i) = None)}"
    using keys by (auto simp: rs_def)
  ultimately have roots: "?roots = filter (\<lambda>b. ?E b \<and> parent b = None) ?bs"
    by (rule sorted_indices_filter)
  then have roots_length: "length (filter (\<lambda>b. ?E b \<and> parent b = None) ?bs) = length rs"
    by (metis length_map)
  have selected: "?sel \<longleftrightarrow> (\<exists>b \<in> set ?bs. ?E b)"
    by (auto simp: exported_def)
  have empty: "names = [] \<longleftrightarrow> \<not> ?sel"
    unfolding selected filtered by (simp add: filter_empty_conv)
  have distinct_names: "distinct names"
    unfolding filtered using D by (rule distinct_map_filter)
  have known_names: "set names \<subseteq> name ` set ?bs"
    unfolding filtered by auto
  have named: "name b \<in> set names \<longleftrightarrow> (\<exists>k \<in> set is. ?bs ! k = b)" if "b \<in> set ?bs" for b
  proof
    assume "name b \<in> set names"
    then obtain k where k: "k \<in> set is" "name (?bs ! k) = name b"
      by (auto simp: names_def)
    with keys have "k < length ?bs" by simp
    from name_unique [OF D nth_mem [OF this] that k(2)] k(1)
    show "\<exists>k \<in> set is. ?bs ! k = b" by blast
  next
    assume "\<exists>k \<in> set is. ?bs ! k = b"
    then show "name b \<in> set names" by (auto simp: names_def)
  qed
  have above: "\<exists>j \<in> set is. ?bs ! j = a" if "k \<in> set is" "a \<in> set (ancestors (?bs ! k))" for k a
    using closed_keys_ancestors [OF closed D P that] .
  have top: "\<exists>j \<in> set is. ?bs ! j = root_of (?bs ! k)" if "k \<in> set is" for k
    using root_of_in [of "?bs ! k"] above [OF that] that by metis
  have first: "(\<exists>names. get_export_bone_names (Some ob) m sel = Some (Inr names)
              \<and> names = map name (filter ?E ?bs)
              \<and> length (filter (\<lambda>b. ?E b \<and> parent b = None) ?bs) \<le> 1
              \<and> ((names = [] \<and> \<not> ?sel) \<or> (?sel \<and> single_tree ?bs names)))
          \<or> (\<exists>roots. get_export_bone_names (Some ob) m sel
                 = Some (Inl (MultipleRoots (length roots) (map name roots)))
              \<and> 1 < length roots
              \<and> roots = filter (\<lambda>b. ?E b \<and> parent b = None) ?bs)"
  proof (cases "length rs \<le> 1")
    case True
    from finish_few_roots [of ?bs out] True run
    have res: "get_export_bone_names (Some ob) m sel = Some (Inr names)"
      by (simp add: rs_def is_def items_def names_def)
    have tree: "single_tree ?bs names" if "names \<noteq> []"
    proof -
      from that obtain k where k: "k \<in> set is"
        by (cases "is") (auto simp: names_def)
      from top [OF k] obtain j where j: "j \<in> set is" "?bs ! j = root_of (?bs ! k)" by blast
      let ?r = "?bs ! j"
      from j(1) keys have jn: "j < length ?bs" by simp
      have r_root: "parent ?r = None" using j(2) by (simp add: root_of_no_parent)
      have "root_of b = ?r \<and> (\<forall>a \<in> set (ancestors b). name a \<in> set names)"
        if b: "b \<in> set ?bs" "name b \<in> set names" for b
      proof
        from named [OF b(1)] b(2) obtain k' where k': "k' \<in> set is" "?bs ! k' = b" by blast
        from top [OF k'(1)] k'(2) obtain j' where j': "j' \<in> set is" "?bs ! j' = root_of b"
          by auto
        have "j' = j"
          by (rule filter_at_most_one [OF True [unfolded rs_def] j'(1) j(1)])
            (simp_all add: j'(2) root_of_no_parent r_root)
        with j'(2) show "root_of b = ?r" by simp
        show "\<forall>a \<in> set (ancestors b). name a \<in> set names"
        proof
          fix a assume a: "a \<in> set (ancestors b)"
          from above [OF k'(1)] a k'(2) obtain i where "i \<in> set is" "?bs ! i = a" by auto
          then show "name a \<in> set names" by (auto simp: names_def)
        qed
      qed
      moreover have "name ?r \<in> set names" using j(1) by (auto simp: names_def)
      ultimately have "\<exists>r \<in> set ?bs. parent r = None \<and> name r \<in> set names
          \<and> (\<forall>b \<in> set ?bs. name b \<in> set names \<longrightarrow>
                root_of b = r \<and> (\<forall>a \<in> set (ancestors b). name a \<in> set names))"
        using nth_mem [OF jn] r_root by blast
      with distinct_names known_names show ?thesis
        unfolding single_tree_def by (intro conjI)
    qed
    have "(names = [] \<and> \<not> ?sel) \<or> (?sel \<and> single_tree ?bs names)"
      using empty tree by blast
    moreover have "length (filter (\<lambda>b. ?E b \<and> parent b = None) ?bs) \<le> 1"
      using True roots_length by simp
    ultimately have "get_export_bone_names (Some ob) m sel = Some (Inr names)
        \<and> names = map name (filter ?E ?bs)
        \<and> length (filter (\<lambda>b. ?E b \<and> parent b = None) ?bs) \<le> 1
        \<and> ((names = [] \<and> \<not> ?sel) \<or> (?sel \<and> single_tree ?bs names))"
      using res filtered by simp
    then show ?thesis
      by (intro disjI1 exI [of _ names])
  next
    case False
    then have many: "1 < length rs" by simp
    let ?insts = "map (\<lambda>e. case snd e of None \<Rightarrow> None | Some j \<Rightarrow> Some (name (?bs ! j))) items"
    let ?names = "map (\<lambda>e. name (?bs ! fst e)) items"
    have "instigators_ok ?bs st []"
      using st_none by (simp add: instigators_ok_def)
    from walk_instigators [OF out this] have I: "instigators_ok ?bs [] items"
      by (simp add: instigators_ok_def items_def)
    have dk: "distinct (map fst items)"
      using sorted by (simp add: is_def strict_sorted_iff)
    have rng: "\<forall>e \<in> set items. fst e < length ?bs"
      using keys by (auto simp: is_def)
    have "\<exists>x. true_instigator ?names ?insts r = Some (Inr x)" if "r \<in> set (map name ?roots)" for r
    proof -
      from that obtain i where "i \<in> set is" "r = name (?bs ! i)"
        by (auto simp: rs_def)
      then obtain e where "e \<in> set items" "r = name (?bs ! fst e)"
        by (auto simp: is_def)
      with true_instigator_returns [OF D P I dk rng, of e] show ?thesis by simp
    qed
    then obtain printed
      where "print_instigators ?names ?insts (map name ?roots) = Some (Inr printed)"
      using print_instigators_returns [of "map name ?roots" ?names ?insts] by blast
    from finish_many_roots [of ?bs out printed] this many run
    have res: "get_export_bone_names (Some ob) m sel
        = Some (Inl (MultipleRoots (length ?roots) (map name ?roots)))"
      by (simp add: rs_def is_def items_def)
    from many have "1 < length ?roots" by simp
    with res roots show ?thesis
      by (intro disjI2 exI [of _ ?roots] conjI)
  qed
  have "get_export_bone_names (Some ob) m sel = Some (Inr [])" if "?bs = []"
    using that assms(1) by (simp add: get_export_bone_names_def finish_def)
  with first show ?thesis by blast
qed

text \<open>
  The two-roots scenario: with every bone of the sample armature selected, the export set
  has the roots \<open>root\<close> and \<open>other\<close>, and the selector fails.
\<close>

lemma chain_all_selected:
  "get_export_bone_names (Some chain_object) ''ALL'' []
     = Some (Inl (MultipleRoots 2 [''root'', ''other'']))"
  by (simp add: get_export_bone_names_def finish_def sample_defs true_instigator.simps)

theorem selector_single_tree_witness:
  "obj_type chain_object = ''ARMATURE'' \<and> wf_armature (data chain_object)
   \<and> get_export_bone_names (Some chain_object) ''BONE_COLLECTIONS'' [1]
       = Some (Inr [''root'', ''mid'', ''tip''])
   \<and> single_tree (bones (data chain_object)) [''root'', ''mid'', ''tip'']"
proof -
  have t: "obj_type chain_object = ''ARMATURE''" by (simp add: sample_defs)
  have pick: "T ns"
    if "(\<exists>names. r = Some (Inr names) \<and> A names \<and> B
            \<and> ((names = [] \<and> \<not> S) \<or> (S \<and> T names)))
        \<or> (\<exists>roots. r = Some (Inl (e roots)) \<and> C roots)"
      and "r = Some (Inr ns)" and "ns \<noteq> []"
    for r :: "(error + string list) option" and ns T A B S
      and e :: "Bone list \<Rightarrow> error" and C :: "Bone list \<Rightarrow> bool"
    using that by auto
  have "single_tree (bones (data chain_object)) [''root'', ''mid'', ''tip'']"
    by (rule pick [OF selector_single_tree [OF t wf_chain_object, THEN conjunct1]
          chain_selected]) simp
  with t wf_chain_object chain_selected show ?thesis by (intro conjI)
qed

end
